theory Spec2Isabelle
  imports Main "HOL-Library.Sublist" "HOL-Library.AList"
begin

section \<open>Strings of the C++ source\<close>

text \<open>
  A \<^verbatim>\<open>std::string\<close> is a sequence of bytes: \<^typ>\<open>string\<close>. The two members of
  \<^verbatim>\<open>std::string\<close> the server uses for searching return the first position of a
  match, or \<^verbatim>\<open>npos\<close>, here \<^term>\<open>None\<close>.
\<close>

abbreviation NL :: char where "NL \<equiv> CHR 0x0A"
abbreviation CR :: char where "CR \<equiv> CHR 0x0D"
abbreviation TAB :: char where "TAB \<equiv> CHR 0x09"
abbreviation BACKSLASH :: char where "BACKSLASH \<equiv> CHR 0x5C"

text \<open>\<^verbatim>\<open>s.find(ch)\<close>: the first index holding \<open>ch\<close>.\<close>

fun find_char :: "string \<Rightarrow> char \<Rightarrow> nat option" where
  "find_char [] ch = None"
| "find_char (c # s) ch = (if c = ch then Some 0 else map_option Suc (find_char s ch))"

text \<open>\<^verbatim>\<open>s.find(pat)\<close>: the first index at which \<open>pat\<close> starts.\<close>

fun find_str :: "string \<Rightarrow> string \<Rightarrow> nat option" where
  "find_str [] pat = (if pat = [] then Some 0 else None)"
| "find_str (c # s) pat =
     (if prefix pat (c # s) then Some 0 else map_option Suc (find_str s pat))"

section \<open>Filename guard\<close>

text \<open>
  \<^verbatim>\<open>
  bool isSafeFilename(const std::string& fn) {
      if (fn.empty()) return false;
      if (fn.find('/') != std::string::npos) return false;
      if (fn.find('\\') != std::string::npos) return false;
      if (fn.find("..") != std::string::npos) return false;
      return true;
  }
  \<close>
\<close>

definition isSafeFilename :: "string \<Rightarrow> bool" where
  "isSafeFilename fn =
     (if fn = [] then False
      else if find_char fn (CHR ''/'') \<noteq> None then False
      else if find_char fn BACKSLASH \<noteq> None then False
      else if find_str fn ''..'' \<noteq> None then False
      else True)"

section \<open>The socket\<close>

text \<open>
  The server talks to one peer through a connected TCP socket. The kernel's side of the
  socket is the environment of the program, modelled as two finite scripts:
  \<^item> \<open>rx\<close>, what successive \<^verbatim>\<open>recv\<close> calls meet: a segment of bytes that has arrived
    (a call takes at most the bytes it asks for and leaves the rest of the segment), an
    interrupted call (\<^verbatim>\<open>EINTR\<close>) or a failed call (any other \<^verbatim>\<open>errno\<close>). At the end of
    the script the peer has shut the connection down: \<^verbatim>\<open>recv\<close> returns 0.
  \<^item> \<open>tx\<close>, what successive \<^verbatim>\<open>send\<close> calls meet: the kernel takes at most \<open>n\<close> bytes
    (\<open>Sent n\<close>), the call is interrupted, or it fails. At the end of the script the kernel
    takes everything it is given.
  \<open>out\<close> collects the bytes the kernel has taken for the peer, in order; \<open>is_closed\<close>
  records \<^verbatim>\<open>close(sock)\<close>. The value of \<^verbatim>\<open>errno\<close> is returned beside the result of
  the call; the source reads it only after a negative result.

  A failed \<^verbatim>\<open>send\<close> of the script returns \<open>- 1\<close>. The signal \<^verbatim>\<open>SIGPIPE\<close>, which a
  \<^verbatim>\<open>send\<close> to a peer that has gone raises and the program does not handle, ends the
  process at once; the script has no such event. The statements below about what the
  server answers are about connections on which no send fails for good.
\<close>

datatype errno = ENONE | EINTR | EOTHER

datatype recv_ev = Bytes string | RecvIntr | RecvErr

datatype send_ev = Sent nat | SendIntr | SendErr

record sock =
  rx :: "recv_ev list"
  tx :: "send_ev list"
  out :: string
  is_closed :: bool

fun recv_from :: "recv_ev list \<Rightarrow> nat \<Rightarrow> int \<times> errno \<times> string \<times> recv_ev list" where
  "recv_from [] len = (0, ENONE, [], [])"
| "recv_from (Bytes bs # es) len =
     (if bs = [] then recv_from es len
      else (int (min len (length bs)), ENONE, take len bs,
            if length bs \<le> len then es else Bytes (drop len bs) # es))"
| "recv_from (RecvIntr # es) len = (- 1, EINTR, [], es)"
| "recv_from (RecvErr # es) len = (- 1, EOTHER, [], es)"

text \<open>\<^verbatim>\<open>recv(sock, buf, len, 0)\<close>: the result, \<^verbatim>\<open>errno\<close>, the bytes put in \<open>buf\<close>.\<close>

definition recv :: "sock \<Rightarrow> nat \<Rightarrow> int \<times> errno \<times> string \<times> sock" where
  "recv s len = (case recv_from (rx s) len of (r, e, bs, es) \<Rightarrow> (r, e, bs, s\<lparr>rx := es\<rparr>))"

text \<open>\<^verbatim>\<open>send(sock, buf, len, 0)\<close>: the result and \<^verbatim>\<open>errno\<close>.\<close>

definition send :: "sock \<Rightarrow> string \<Rightarrow> int \<times> errno \<times> sock" where
  "send s buf =
     (case tx s of
        [] \<Rightarrow> (int (length buf), ENONE, s\<lparr>out := out s @ buf\<rparr>)
      | Sent n # es \<Rightarrow>
          (int (min n (length buf)), ENONE, s\<lparr>tx := es, out := out s @ take n buf\<rparr>)
      | SendIntr # es \<Rightarrow> (- 1, EINTR, s\<lparr>tx := es\<rparr>)
      | SendErr # es \<Rightarrow> (- 1, EOTHER, s\<lparr>tx := es\<rparr>))"

text \<open>The size of what is left of the receive script: every \<^verbatim>\<open>recv\<close> that does not
  return 0 makes it smaller.\<close>

fun ev_size :: "recv_ev \<Rightarrow> nat" where
  "ev_size (Bytes bs) = Suc (length bs)"
| "ev_size RecvIntr = 1"
| "ev_size RecvErr = 1"

definition rx_size :: "sock \<Rightarrow> nat" where
  "rx_size s = sum_list (map ev_size (rx s))"

lemma recv_from_size:
  "recv_from es len = (r, e, got, es') \<Longrightarrow>
     sum_list (map ev_size es') \<le> sum_list (map ev_size es) \<and>
     (r \<noteq> 0 \<longrightarrow> sum_list (map ev_size es') < sum_list (map ev_size es))"
proof (induction es len arbitrary: r e got es' rule: recv_from.induct)
  case (2 bs es len)
  show ?case
  proof (cases "bs = []")
    case True
    with 2 show ?thesis by fastforce
  next
    case False
    with 2(2) show ?thesis by (auto split: if_splits)
  qed
qed auto

lemma recv_size:
  assumes "(r, e, got, s') = recv s len"
  shows "rx_size s' \<le> rx_size s" and "r \<noteq> 0 \<Longrightarrow> rx_size s' < rx_size s"
  using assms recv_from_size [of "rx s" len]
  by (auto simp: recv_def rx_size_def split: prod.splits)

section \<open>Framing layer\<close>

text \<open>
  \<^verbatim>\<open>
  ssize_t sendAll(int sock, const char* buf, size_t len) {
      size_t total = 0;
      while (total < len) {
          ssize_t sent = send(sock, buf + total, len - total, 0);
          if (sent <= 0) {
              if (sent < 0 && errno == EINTR) continue;
              return -1;
          }
          total += sent;
      }
      return (ssize_t)total;
  }
  \<close>
  Lengths stay far below \<open>2 ^ 63\<close>, so the cast to \<^verbatim>\<open>ssize_t\<close> is the identity.
\<close>

function sendAll_loop :: "sock \<Rightarrow> string \<Rightarrow> nat \<Rightarrow> int \<times> sock" where
  "sendAll_loop s buf tot =
     (if tot < length buf then
        (case send s (drop tot buf) of
           (sent, e, s') \<Rightarrow>
             if sent \<le> 0 then
               (if sent < 0 \<and> e = EINTR then sendAll_loop s' buf tot else (- 1, s'))
             else sendAll_loop s' buf (tot + nat sent))
      else (int tot, s))"
  by pat_completeness auto
termination
proof (relation "measure (\<lambda>(s, buf, tot). length (tx s) + (length buf - tot))")
qed (auto simp: send_def split: list.splits send_ev.splits)

definition sendAll :: "sock \<Rightarrow> string \<Rightarrow> int \<times> sock" where
  "sendAll s buf = sendAll_loop s buf 0"

text \<open>
  \<^verbatim>\<open>
  ssize_t recvExact(int sock, char* buf, size_t len) {
      size_t total = 0;
      while (total < len) {
          ssize_t r = recv(sock, buf + total, len - total, 0);
          if (r <= 0) {
              if (r < 0 && errno == EINTR) continue;
              return -1;
          }
          total += r;
      }
      return (ssize_t)total;
  }
  \<close>
  The list \<open>buf\<close> is the filled part of the caller's buffer, and \<open>tot\<close> is the source's \<^verbatim>\<open>total\<close>.
\<close>

function recvExact_loop :: "sock \<Rightarrow> nat \<Rightarrow> string \<Rightarrow> nat \<Rightarrow> int \<times> string \<times> sock" where
  "recvExact_loop s len buf tot =
     (if tot < len then
        (case recv s (len - tot) of
           (r, e, bs, s') \<Rightarrow>
             if r \<le> 0 then
               (if r < 0 \<and> e = EINTR then recvExact_loop s' len buf tot else (- 1, buf, s'))
             else recvExact_loop s' len (buf @ bs) (tot + nat r))
      else (int tot, buf, s))"
  by pat_completeness auto
termination
proof (relation "measure (\<lambda>(s, len, buf, tot). rx_size s)")
qed (auto dest: recv_size(2))

definition recvExact :: "sock \<Rightarrow> nat \<Rightarrow> int \<times> string \<times> sock" where
  "recvExact s len = recvExact_loop s len [] 0"

text \<open>
  \<^verbatim>\<open>
  bool readLine(int sock, std::string& outLine) {
      outLine.clear();
      char ch;
      while (true) {
          ssize_t r = recv(sock, &ch, 1, 0);
          if (r == 1) {
              if (ch == '\n') return true;
              if (ch != '\r') outLine.push_back(ch);
          } else if (r == 0) {
              return false;
          } else {
              if (errno == EINTR) continue;
              return false;
          }
      }
  }
  \<close>
  When \<^verbatim>\<open>recv\<close> returns 1 it has stored one byte: \<open>ch\<close> is the head of what it delivered.
\<close>

function readLine_loop :: "sock \<Rightarrow> string \<Rightarrow> bool \<times> string \<times> sock" where
  "readLine_loop s outLine =
     (case recv s 1 of
        (r, e, bs, s') \<Rightarrow>
          if r = 1 then
            (let ch = hd bs in
             if ch = NL then (True, outLine, s')
             else if ch \<noteq> CR then readLine_loop s' (outLine @ [ch])
             else readLine_loop s' outLine)
          else if r = 0 then (False, outLine, s')
          else if e = EINTR then readLine_loop s' outLine
          else (False, outLine, s'))"
  by pat_completeness auto
termination
proof (relation "measure (\<lambda>(s, outLine). rx_size s)")
qed (auto dest: recv_size(2))

definition readLine :: "sock \<Rightarrow> bool \<times> string \<times> sock" where
  "readLine s = readLine_loop s []"

text \<open>
  \<^verbatim>\<open>
  bool sendLine(int sock, const std::string& line) {
      std::string withnl = line + "\n";
      return sendAll(sock, withnl.data(), withnl.size()) == (ssize_t)withnl.size();
  }
  \<close>
\<close>

definition sendLine :: "sock \<Rightarrow> string \<Rightarrow> bool \<times> sock" where
  "sendLine s line =
     (let withnl = line @ [NL] in
      case sendAll s withnl of (r, s') \<Rightarrow> (r = int (length withnl), s'))"

section \<open>Numbers on the wire\<close>

text \<open>\<^verbatim>\<open>std::to_string\<close> of an unsigned value: its decimal digits, no sign, no padding.\<close>

definition digit_char :: "nat \<Rightarrow> char" where
  "digit_char d = ''0123456789'' ! d"

fun to_string :: "nat \<Rightarrow> string" where
  "to_string n =
     (if n < 10 then [digit_char n] else to_string (n div 10) @ [digit_char (n mod 10)])"

declare to_string.simps [simp del]

text \<open>
  \<^verbatim>\<open>std::stoull(str)\<close> in base 10, as \<^verbatim>\<open>strtoull\<close> does it: white space is skipped, one
  sign is accepted, then the longest run of digits is converted and whatever follows is
  ignored. With no digit it throws \<^verbatim>\<open>std::invalid_argument\<close>; when the digits exceed
  \<^verbatim>\<open>ULLONG_MAX\<close> it throws \<^verbatim>\<open>std::out_of_range\<close>; a minus sign negates the value in
  64-bit unsigned arithmetic.
\<close>

datatype stoull_error = invalid_argument | out_of_range

definition isspace :: "char \<Rightarrow> bool" where
  "isspace c \<longleftrightarrow> c \<in> set [CHR '' '', TAB, NL, CHR 0x0B, CHR 0x0C, CR]"

definition isdigit :: "char \<Rightarrow> bool" where
  "isdigit c \<longleftrightarrow> c \<in> set ''0123456789''"

definition digit_val :: "char \<Rightarrow> nat" where
  "digit_val c = of_char c - 48"

definition ULLONG_MAX :: nat where
  "ULLONG_MAX = 2 ^ 64 - 1"

definition stoull :: "string \<Rightarrow> stoull_error + nat" where
  "stoull str =
     (let s1 = dropWhile isspace str;
          neg = (s1 \<noteq> [] \<and> hd s1 = CHR ''-'');
          s2 = (if s1 \<noteq> [] \<and> (hd s1 = CHR ''-'' \<or> hd s1 = CHR ''+'') then tl s1 else s1);
          ds = takeWhile isdigit s2;
          v = foldl (\<lambda>a c. 10 * a + digit_val c) 0 ds
      in if ds = [] then Inl invalid_argument
         else if v > ULLONG_MAX then Inl out_of_range
         else Inr (if neg then (2 ^ 64 - v) mod 2 ^ 64 else v))"

section \<open>The served directory\<close>

text \<open>
  The served directory is the other part of the environment. It holds its entries in
  the order in which \<^verbatim>\<open>fs::directory_iterator\<close> enumerates them; a regular file
  carries its content. The names in \<open>unreadable\<close> and \<open>unwritable\<close> are those whose
  opening for reading and for writing fails; \<open>write_ok\<close> scripts the outcome of
  successive \<^verbatim>\<open>ofs.write\<close> calls (at its end every write succeeds).

  The model covers a served directory that exists and that the process may enumerate
  and search: \<^verbatim>\<open>create_directories\<close> at the head of \<^verbatim>\<open>handle_client\<close> has nothing to
  do and \<^verbatim>\<open>fs::directory_iterator\<close> does not throw. A special file (neither regular
  file nor directory) is taken not to open for writing, and a new file is enumerated
  last: the code fixes neither, and no statement below depends on them.
\<close>

datatype entry = File string | Dir | Other

record filesys =
  entries :: "(string \<times> entry) list"
  unreadable :: "string list"
  unwritable :: "string list"
  write_ok :: "bool list"

text \<open>
  The path \<^verbatim>\<open>serve_dir / filename\<close> reaches the operating system as a C string, which
  ends at the first NUL byte of the name the client sent: this is the name the system
  sees. The system refuses a name longer than \<^verbatim>\<open>NAME_MAX\<close> bytes
  (\<^verbatim>\<open>ENAMETOOLONG\<close>; 255 on the usual filesystems). The empty name and \<open>.\<close> are the
  directory itself.
\<close>

definition NAME_MAX :: nat where
  "NAME_MAX = 255"

definition os_name :: "string \<Rightarrow> string" where
  "os_name name = takeWhile (\<lambda>c. c \<noteq> CHR 0x00) name"

text \<open>What the directory holds under a name; a name the system refuses holds nothing.\<close>

definition fs_status :: "filesys \<Rightarrow> string \<Rightarrow> entry option" where
  "fs_status fs name =
     (if NAME_MAX < length (os_name name) then None
      else if os_name name = [] \<or> os_name name = ''.'' then Some Dir
      else map_of (entries fs) (os_name name))"

text \<open>
  The calls \<^verbatim>\<open>fs::exists(p)\<close>, \<^verbatim>\<open>fs::is_regular_file(p)\<close> and \<^verbatim>\<open>fs::file_size(p)\<close> of the
  source are the overloads that throw \<^verbatim>\<open>fs::filesystem_error\<close>: the first two when the
  system fails on the path for another reason than that no such file exists, here a name
  that is too long; the third also when the path is not a regular file.
\<close>

datatype fs_exn = filesystem_error

definition fs_exists :: "filesys \<Rightarrow> string \<Rightarrow> fs_exn + bool" where
  "fs_exists fs name =
     (if NAME_MAX < length (os_name name) then Inl filesystem_error
      else Inr (fs_status fs name \<noteq> None))"

definition is_regular_file :: "filesys \<Rightarrow> string \<Rightarrow> fs_exn + bool" where
  "is_regular_file fs name =
     (if NAME_MAX < length (os_name name) then Inl filesystem_error
      else Inr (case fs_status fs name of Some (File content) \<Rightarrow> True | _ \<Rightarrow> False))"

definition file_size :: "filesys \<Rightarrow> string \<Rightarrow> fs_exn + nat" where
  "file_size fs name =
     (case fs_status fs name of
        Some (File content) \<Rightarrow> Inr (length content)
      | _ \<Rightarrow> Inl filesystem_error)"

text \<open>\<^verbatim>\<open>std::ifstream ifs(filep, std::ios::binary)\<close>: the content to read, or a failed
  stream.\<close>

definition ifstream_open :: "filesys \<Rightarrow> string \<Rightarrow> string option" where
  "ifstream_open fs name =
     (case fs_status fs name of
        Some (File content) \<Rightarrow> if name \<in> set (unreadable fs) then None else Some content
      | _ \<Rightarrow> None)"

text \<open>\<^verbatim>\<open>std::ofstream ofs(filep, std::ios::binary)\<close>: creates the file or truncates it, or
  gives a failed stream and leaves the directory as it is.\<close>

definition ofstream_open :: "filesys \<Rightarrow> string \<Rightarrow> filesys option" where
  "ofstream_open fs name =
     (if NAME_MAX < length (os_name name) then None
      else
        (case fs_status fs name of
           None \<Rightarrow>
             if name \<in> set (unwritable fs) then None
             else Some (fs\<lparr>entries := AList.update (os_name name) (File []) (entries fs)\<rparr>)
         | Some (File content) \<Rightarrow>
             if name \<in> set (unwritable fs) then None
             else Some (fs\<lparr>entries := AList.update (os_name name) (File []) (entries fs)\<rparr>)
         | Some Dir \<Rightarrow> None
         | Some Other \<Rightarrow> None))"

text \<open>\<^verbatim>\<open>ofs.write(buf, n)\<close> followed by the test \<^verbatim>\<open>!ofs\<close>: a write that succeeds appends
  to the file; one that fails leaves the content as it was.\<close>

definition ofstream_write :: "filesys \<Rightarrow> string \<Rightarrow> string \<Rightarrow> bool \<times> filesys" where
  "ofstream_write fs name bytes =
     (let ok = (case write_ok fs of [] \<Rightarrow> True | b # bs \<Rightarrow> b);
          fs1 = fs\<lparr>write_ok := tl (write_ok fs)\<rparr>
      in if ok then
           (case fs_status fs1 name of
              Some (File content) \<Rightarrow>
                (True,
                 fs1\<lparr>entries := AList.update (os_name name) (File (content @ bytes)) (entries fs1)\<rparr>)
            | _ \<Rightarrow> (True, fs1))
         else (False, fs1))"

text \<open>The body of LIST: one line \<open>name TAB kind\<close> for each entry, in enumeration order.\<close>

fun listing_of :: "(string \<times> entry) list \<Rightarrow> string" where
  "listing_of [] = []"
| "listing_of ((name, e) # es) =
     (case e of
        File content \<Rightarrow> name @ [TAB] @ ''file'' @ [NL]
      | Dir \<Rightarrow> name @ [TAB] @ ''dir'' @ [NL]
      | Other \<Rightarrow> name @ [TAB] @ ''other'' @ [NL]) @ listing_of es"

section \<open>Session protocol engine\<close>

definition BUFFER_SIZE :: nat where
  "BUFFER_SIZE = 8192"

text \<open>\<^verbatim>\<open>s.rfind(pat, pos)\<close>: the last index, at most \<open>pos\<close>, at which \<open>pat\<close> starts. The
  server calls it with \<open>pos = 0\<close> and compares the result with 0: a test that the line
  starts with \<open>pat\<close>.\<close>

fun rfind :: "string \<Rightarrow> string \<Rightarrow> nat \<Rightarrow> nat option" where
  "rfind s pat 0 = (if prefix pat s then Some 0 else None)"
| "rfind s pat (Suc pos) =
     (if Suc pos \<le> length s \<and> prefix pat (drop (Suc pos) s) then Some (Suc pos)
      else rfind s pat pos)"

text \<open>What the loop body does next: \<^verbatim>\<open>continue\<close> (or falling off the end of the body),
  \<^verbatim>\<open>break\<close>, or an exception that \<^verbatim>\<open>handle_client\<close> does not catch.\<close>

datatype flow = Continue | Break | Uncaught

text \<open>The two-line error response; the results of both \<^verbatim>\<open>sendLine\<close> calls are dropped,
  as in the source.\<close>

definition send_ERR :: "sock \<Rightarrow> string \<Rightarrow> sock" where
  "send_ERR s msg = snd (sendLine (snd (sendLine s ''ERR'')) msg)"

text \<open>
  LIST (source lines 105 to 124):
  \<^verbatim>\<open>
  if (!sendLine(client_sock, "OK")) break;
  if (!sendLine(client_sock, std::to_string(listing.size()))) break;
  if (!listing.empty()) {
      if (sendAll(client_sock, listing.data(), listing.size()) < 0) break;
  }
  \<close>
\<close>

definition handle_LIST :: "sock \<Rightarrow> filesys \<Rightarrow> flow \<times> sock \<times> filesys" where
  "handle_LIST s fs =
     (let listing = listing_of (entries fs) in
      case sendLine s ''OK'' of
        (ok1, s1) \<Rightarrow>
          if \<not> ok1 then (Break, s1, fs)
          else
            (case sendLine s1 (to_string (length listing)) of
               (ok2, s2) \<Rightarrow>
                 if \<not> ok2 then (Break, s2, fs)
                 else if listing \<noteq> [] then
                   (case sendAll s2 listing of
                      (r, s3) \<Rightarrow> if r < 0 then (Break, s3, fs) else (Continue, s3, fs))
                 else (Continue, s2, fs)))"

text \<open>
  The chunk loop of GET (source lines 148 to 155); \<open>rest\<close> is what the stream has not
  read yet. After a read of fewer than \<^verbatim>\<open>BUFFER_SIZE\<close> bytes the stream is at its end
  and tests false.
  \<^verbatim>\<open>
  while (ifs) {
      ifs.read(buf.data(), buf.size());
      std::streamsize r = ifs.gcount();
      if (r > 0) {
          if (sendAll(client_sock, buf.data(), (size_t)r) < 0) break;
      }
  }
  \<close>
\<close>

function send_file :: "sock \<Rightarrow> string \<Rightarrow> sock" where
  "send_file s rest =
     (let chunk = take BUFFER_SIZE rest;
          good = (length chunk = BUFFER_SIZE)
      in if length chunk > 0 then
           (case sendAll s chunk of
              (r, s') \<Rightarrow>
                if r < 0 then s'
                else if good then send_file s' (drop BUFFER_SIZE rest)
                else s')
         else s)"
  by pat_completeness auto
termination
proof (relation "measure (\<lambda>(s, rest). length rest)")
qed (auto simp: BUFFER_SIZE_def)

text \<open>
  GET (source lines 125 to 155). The test of line 133,
  \<^verbatim>\<open>!fs::exists(filep) || !fs::is_regular_file(filep)\<close>, calls the second function only
  when the first returned true; no \<^verbatim>\<open>try\<close> surrounds these calls.
\<close>

definition handle_GET :: "sock \<Rightarrow> filesys \<Rightarrow> string \<Rightarrow> flow \<times> sock \<times> filesys" where
  "handle_GET s fs filename =
     (if \<not> isSafeFilename filename then (Continue, send_ERR s ''Invalid filename'', fs)
      else
        (case fs_exists fs filename of
           Inl exn \<Rightarrow> (Uncaught, s, fs)
         | Inr ex \<Rightarrow>
             if \<not> ex then (Continue, send_ERR s ''File not found'', fs)
             else
               (case is_regular_file fs filename of
                  Inl exn \<Rightarrow> (Uncaught, s, fs)
                | Inr reg \<Rightarrow>
                    if \<not> reg then (Continue, send_ERR s ''File not found'', fs)
                    else
                      (case file_size fs filename of
                         Inl exn \<Rightarrow> (Uncaught, s, fs)
                       | Inr fsize \<Rightarrow>
                           (case ifstream_open fs filename of
                              None \<Rightarrow> (Continue, send_ERR s ''Failed to open file'', fs)
                            | Some content \<Rightarrow>
                                (let s1 = snd (sendLine s ''OK'');
                                     s2 = snd (sendLine s1 (to_string fsize))
                                 in (Continue, send_file s2 content, fs)))))))"

text \<open>
  The drain loop of PUT after a failed create (source lines 181 to 188):
  \<^verbatim>\<open>
  while (toDiscard > 0) {
      size_t chunk = (toDiscard > discardBuf.size()) ? discardBuf.size() : (size_t)toDiscard;
      ssize_t got = recvExact(client_sock, discardBuf.data(), chunk);
      if (got <= 0) break;
      toDiscard -= (unsigned long long)got;
  }
  \<close>
\<close>

function drain :: "sock \<Rightarrow> nat \<Rightarrow> sock" where
  "drain s toDiscard =
     (if toDiscard > 0 then
        (let chunk = (if toDiscard > 4096 then 4096 else toDiscard) in
         case recvExact s chunk of
           (got, buf, s') \<Rightarrow> if got \<le> 0 then s' else drain s' (toDiscard - nat got))
      else s)"
  by pat_completeness auto
termination
proof (relation "measure (\<lambda>(s, toDiscard). toDiscard)")
qed auto

text \<open>
  The copy loop of PUT (source lines 191 to 207); the result is \<open>err\<close>.
  \<^verbatim>\<open>
  while (remaining > 0) {
      size_t chunk = (remaining > buf.size()) ? buf.size() : (size_t)remaining;
      ssize_t got = recvExact(client_sock, buf.data(), chunk);
      if (got <= 0) { err = true; break; }
      ofs.write(buf.data(), got);
      if (!ofs) { err = true; break; }
      remaining -= (unsigned long long)got;
  }
  \<close>
\<close>

function recv_file :: "sock \<Rightarrow> filesys \<Rightarrow> string \<Rightarrow> nat \<Rightarrow> bool \<times> sock \<times> filesys" where
  "recv_file s fs filename remaining =
     (if remaining > 0 then
        (let chunk = (if remaining > BUFFER_SIZE then BUFFER_SIZE else remaining) in
         case recvExact s chunk of
           (got, buf, s') \<Rightarrow>
             if got \<le> 0 then (True, s', fs)
             else
               (case ofstream_write fs filename (take (nat got) buf) of
                  (ok, fs') \<Rightarrow>
                    if \<not> ok then (True, s', fs')
                    else recv_file s' fs' filename (remaining - nat got)))
      else (False, s, fs))"
  by pat_completeness auto
termination
proof (relation "measure (\<lambda>(s, fs, filename, remaining). remaining)")
qed auto

text \<open>PUT (source lines 156 to 214); \<open>sz\<close> is the source's \<^verbatim>\<open>size\<close>. The rejected
  filename is answered before anything else is read. Writes go to the file as they are
  made, so \<^verbatim>\<open>ofs.close()\<close> changes nothing.\<close>

definition handle_PUT :: "sock \<Rightarrow> filesys \<Rightarrow> string \<Rightarrow> flow \<times> sock \<times> filesys" where
  "handle_PUT s fs filename =
     (if \<not> isSafeFilename filename then (Continue, send_ERR s ''Invalid filename'', fs)
      else
        (case readLine s of
           (ok, sizeLine, s1) \<Rightarrow>
             if \<not> ok then (Break, s1, fs)
             else
               (case stoull sizeLine of
                  Inl exn \<Rightarrow> (Continue, send_ERR s1 ''Invalid size header'', fs)
                | Inr sz \<Rightarrow>
                    (case ofstream_open fs filename of
                       None \<Rightarrow> (Continue, drain (send_ERR s1 ''Failed to create file'') sz, fs)
                     | Some fs1 \<Rightarrow>
                         (case recv_file s1 fs1 filename sz of
                            (err, s2, fs2) \<Rightarrow>
                              if err then (Continue, send_ERR s2 ''Transfer error'', fs2)
                              else (Continue, snd (sendLine s2 ''OK''), fs2))))))"

text \<open>
  The command of a line, by the chain of tests of the loop body (source lines 105,
  125, 156, 215 and 217), in their order.
\<close>

datatype command = LIST | GET string | PUT string | QUIT | Unknown

definition parse_command :: "string \<Rightarrow> command" where
  "parse_command line =
     (if rfind line ''LIST'' 0 = Some 0 then LIST
      else if rfind line ''GET '' 0 = Some 0 then GET (drop 4 line)
      else if rfind line ''PUT '' 0 = Some 0 then PUT (drop 4 line)
      else if rfind line ''QUIT'' 0 = Some 0 then QUIT
      else Unknown)"

definition dispatch :: "sock \<Rightarrow> filesys \<Rightarrow> string \<Rightarrow> flow \<times> sock \<times> filesys" where
  "dispatch s fs line =
     (case parse_command line of
        LIST \<Rightarrow> handle_LIST s fs
      | GET filename \<Rightarrow> handle_GET s fs filename
      | PUT filename \<Rightarrow> handle_PUT s fs filename
      | QUIT \<Rightarrow> (Break, s, fs)
      | Unknown \<Rightarrow> (Continue, send_ERR s ''Unknown command'', fs))"

declare sendAll_loop.simps [simp del] recvExact_loop.simps [simp del]
  readLine_loop.simps [simp del] send_file.simps [simp del] drain.simps [simp del]
  recv_file.simps [simp del]

section \<open>What a command leaves of the socket\<close>

text \<open>Sending never touches the receive side, and receiving only consumes it. The
  session loop below terminates on these grounds.\<close>

lemma send_frame:
  "send s buf = (sent, e, s') \<Longrightarrow> rx s' = rx s \<and> is_closed s' = is_closed s"
  by (auto simp: send_def split: list.splits send_ev.splits)

lemma sendAll_loop_frame:
  "rx (snd (sendAll_loop s buf tot)) = rx s \<and>
   is_closed (snd (sendAll_loop s buf tot)) = is_closed s"
proof (induction s buf tot rule: sendAll_loop.induct)
  case (1 s buf tot)
  obtain sent e s' where sd: "send s (drop tot buf) = (sent, e, s')"
    by (cases "send s (drop tot buf)") auto
  note fr = send_frame [OF sd]
  show ?case
  proof (cases "tot < length buf")
    case False
    then show ?thesis by (simp add: sendAll_loop.simps [of s buf tot])
  next
    case True
    note ih1 = 1(1) [OF True sd [symmetric] refl]
    note ih2 = 1(2) [OF True sd [symmetric] refl]
    show ?thesis
      using True fr ih1 ih2 by (simp add: sendAll_loop.simps [of s buf tot] sd)
  qed
qed

lemma sendAll_frame [simp]:
  "rx (snd (sendAll s buf)) = rx s" "is_closed (snd (sendAll s buf)) = is_closed s"
  by (simp_all add: sendAll_def sendAll_loop_frame)

lemma sendLine_frame [simp]:
  "rx (snd (sendLine s line)) = rx s" "is_closed (snd (sendLine s line)) = is_closed s"
proof -
  obtain r s' where sa: "sendAll s (line @ [NL]) = (r, s')"
    by (cases "sendAll s (line @ [NL])") auto
  have "rx s' = rx s" "is_closed s' = is_closed s"
    using sendAll_frame [of s "line @ [NL]"] by (simp_all add: sa)
  then show "rx (snd (sendLine s line)) = rx s" "is_closed (snd (sendLine s line)) = is_closed s"
    by (simp_all add: sendLine_def sa)
qed

lemma send_ERR_frame [simp]:
  "rx (send_ERR s msg) = rx s" "is_closed (send_ERR s msg) = is_closed s"
  by (simp_all add: send_ERR_def)

lemma send_file_frame:
  "rx (send_file s rest) = rx s \<and> is_closed (send_file s rest) = is_closed s"
proof (induction s rest rule: send_file.induct)
  case (1 s rest)
  obtain r s' where sa: "sendAll s (take BUFFER_SIZE rest) = (r, s')"
    by (cases "sendAll s (take BUFFER_SIZE rest)") auto
  have fr: "rx s' = rx s" "is_closed s' = is_closed s"
    using sendAll_frame [of s "take BUFFER_SIZE rest"] sa by simp_all
  show ?case
  proof (cases "0 < length (take BUFFER_SIZE rest) \<and> \<not> r < 0 \<and>
                length (take BUFFER_SIZE rest) = BUFFER_SIZE")
    case True
    then have ih: "rx (send_file s' (drop BUFFER_SIZE rest)) = rx s' \<and>
        is_closed (send_file s' (drop BUFFER_SIZE rest)) = is_closed s'"
      using 1 [OF refl refl _ sa [symmetric]] by simp
    with True fr show ?thesis
      by (simp add: send_file.simps [of s rest] sa Let_def)
  next
    case False
    with fr show ?thesis
      by (auto simp add: send_file.simps [of s rest] sa Let_def)
  qed
qed

lemma rx_size_eq: "rx s' = rx s \<Longrightarrow> rx_size s' = rx_size s"
  by (simp add: rx_size_def)

lemma recvExact_loop_size:
  "rx_size (snd (snd (recvExact_loop s len buf tot))) \<le> rx_size s"
proof (induction s len buf tot rule: recvExact_loop.induct)
  case (1 s len buf tot)
  obtain r e bs s' where rc: "recv s (len - tot) = (r, e, bs, s')"
    by (cases "recv s (len - tot)") auto
  note sz = recv_size(1) [OF rc [symmetric]]
  show ?case
  proof (cases "tot < len")
    case False
    then show ?thesis by (simp add: recvExact_loop.simps [of s len buf tot])
  next
    case True
    note ih1 = 1(1) [OF True rc [symmetric] refl refl]
    note ih2 = 1(2) [OF True rc [symmetric] refl refl]
    show ?thesis
      using True sz ih1 ih2
      by (auto simp add: recvExact_loop.simps [of s len buf tot] rc)
  qed
qed

lemma recvExact_size: "rx_size (snd (snd (recvExact s len))) \<le> rx_size s"
  by (simp add: recvExact_def recvExact_loop_size)

lemma readLine_loop_size:
  "rx_size (snd (snd (readLine_loop s outLine))) \<le> rx_size s \<and>
   (fst (readLine_loop s outLine) \<longrightarrow> rx_size (snd (snd (readLine_loop s outLine))) < rx_size s)"
proof (induction s outLine rule: readLine_loop.induct)
  case (1 s outLine)
  obtain r e bs s' where rc: "recv s 1 = (r, e, bs, s')"
    by (cases "recv s 1") auto
  note sz = recv_size [OF rc [symmetric]]
  note ih1 = 1(1) [OF rc [symmetric] refl refl _ refl]
  note ih2 = 1(2) [OF rc [symmetric] refl refl _ refl]
  note ih3 = 1(3) [OF rc [symmetric] refl refl]
  have rc': "recv s (Suc 0) = (r, e, bs, s')" using rc by simp
  show ?case
    using sz ih1 ih2 ih3
    by (cases "r = 1") (auto simp add: readLine_loop.simps [of s outLine] rc' Let_def)
qed

lemma readLine_size:
  "rx_size (snd (snd (readLine s))) \<le> rx_size s"
  "fst (readLine s) \<Longrightarrow> rx_size (snd (snd (readLine s))) < rx_size s"
  using readLine_loop_size [of s "[]"] by (simp_all add: readLine_def)

lemma drain_size: "rx_size (drain s n) \<le> rx_size s"
proof (induction s n rule: drain.induct)
  case (1 s toDiscard)
  define chunk where "chunk = (if 4096 < toDiscard then 4096 else toDiscard)"
  obtain got buf s' where re: "recvExact s chunk = (got, buf, s')"
    by (cases "recvExact s chunk") auto
  have sz: "rx_size s' \<le> rx_size s" using recvExact_size [of s chunk] re by simp
  show ?case
  proof (cases "0 < toDiscard \<and> \<not> got \<le> 0")
    case True
    then have "rx_size (drain s' (toDiscard - nat got)) \<le> rx_size s'"
      using 1 [OF _ chunk_def re [symmetric] refl] by simp
    with True sz show ?thesis
      using re by (simp add: drain.simps [of s toDiscard] chunk_def Let_def)
  next
    case False
    with sz show ?thesis
      using re by (auto simp add: drain.simps [of s toDiscard] chunk_def Let_def)
  qed
qed

lemma recv_file_size: "rx_size (fst (snd (recv_file s fs name n))) \<le> rx_size s"
proof (induction s fs name n rule: recv_file.induct)
  case (1 s fs filename remaining)
  define chunk where "chunk = (if BUFFER_SIZE < remaining then BUFFER_SIZE else remaining)"
  obtain got buf s' where re: "recvExact s chunk = (got, buf, s')"
    by (cases "recvExact s chunk") auto
  obtain ok fs' where ow: "ofstream_write fs filename (take (nat got) buf) = (ok, fs')"
    by (cases "ofstream_write fs filename (take (nat got) buf)") auto
  have sz: "rx_size s' \<le> rx_size s" using recvExact_size [of s chunk] re by simp
  show ?case
  proof (cases "0 < remaining \<and> \<not> got \<le> 0 \<and> ok")
    case True
    then have "rx_size (fst (snd (recv_file s' fs' filename (remaining - nat got)))) \<le> rx_size s'"
      using 1 [OF _ chunk_def re [symmetric] refl _ ow [symmetric]] by simp
    with True sz show ?thesis
      using re ow by (simp add: recv_file.simps [of s fs filename remaining] chunk_def Let_def)
  next
    case False
    with sz show ?thesis
      using re ow by (auto simp add: recv_file.simps [of s fs filename remaining] chunk_def Let_def)
  qed
qed

lemma handle_LIST_size: "rx_size (fst (snd (handle_LIST s fs))) = rx_size s"
proof -
  have "rx (fst (snd (handle_LIST s fs))) = rx s"
    unfolding handle_LIST_def Let_def
    by (auto split: prod.splits)
      (metis sendLine_frame(1) sendAll_frame(1) snd_conv)+
  then show ?thesis by (rule rx_size_eq)
qed

lemma handle_GET_size: "rx_size (fst (snd (handle_GET s fs name))) = rx_size s"
proof -
  have "rx (fst (snd (handle_GET s fs name))) = rx s"
    unfolding handle_GET_def Let_def
    by (auto split: option.splits sum.splits simp: send_file_frame)
  then show ?thesis by (rule rx_size_eq)
qed

lemma handle_PUT_size: "rx_size (fst (snd (handle_PUT s fs name))) \<le> rx_size s"
proof -
  obtain ok sizeLine s1 where rl: "readLine s = (ok, sizeLine, s1)"
    by (cases "readLine s") auto
  have s1: "rx_size s1 \<le> rx_size s" using readLine_size(1) [of s] rl by simp
  have dr: "rx_size (drain (send_ERR s1 ''Failed to create file'') n) \<le> rx_size s" for n
    using drain_size [of "send_ERR s1 ''Failed to create file''" n] s1
    by (simp add: rx_size_eq [OF send_ERR_frame(1)])
  have rf: "rx_size (fst (snd (recv_file s1 fs1 name n))) \<le> rx_size s" for fs1 n
    using recv_file_size [of s1 fs1 name n] s1 by simp
  show ?thesis
    unfolding handle_PUT_def
    using s1 dr rf
    by (auto simp: rl rx_size_eq [OF send_ERR_frame(1)] rx_size_eq [OF sendLine_frame(1)]
        split: sum.splits option.splits prod.splits)
      (metis fst_conv snd_conv)+
qed

lemma dispatch_size: "rx_size (fst (snd (dispatch s fs line))) \<le> rx_size s"
  unfolding dispatch_def
  using handle_PUT_size handle_GET_size handle_LIST_size
  by (auto split: command.splits simp: rx_size_eq [OF send_ERR_frame(1)])


section \<open>The session loop\<close>

text \<open>
  \<^verbatim>\<open>
  std::string line;
  while (true) {
      bool ok = readLine(client_sock, line);
      if (!ok) break; // connection closed or error
      ... the command of the line ...
  }
  close(client_sock);
  \<close>
  The loop is left by \<^verbatim>\<open>break\<close> or by an exception; the first component of the result
  says which. An exception that leaves \<^verbatim>\<open>handle_client\<close> is caught nowhere (the thread
  started by \<^verbatim>\<open>run_server\<close> has no handler): \<^verbatim>\<open>std::terminate\<close> ends the process, and
  \<^verbatim>\<open>close(client_sock)\<close> is not reached.
\<close>

function session_loop :: "sock \<Rightarrow> filesys \<Rightarrow> flow \<times> sock \<times> filesys" where
  "session_loop s fs =
     (case readLine s of
        (ok, line, s1) \<Rightarrow>
          if \<not> ok then (Break, s1, fs)
          else
            (case dispatch s1 fs line of
               (Continue, s2, fs2) \<Rightarrow> session_loop s2 fs2
             | (Break, s2, fs2) \<Rightarrow> (Break, s2, fs2)
             | (Uncaught, s2, fs2) \<Rightarrow> (Uncaught, s2, fs2)))"
  by pat_completeness auto
termination
proof (relation "measure (\<lambda>(s, fs). rx_size s)")
  show "wf (measure (\<lambda>(s, fs). rx_size s))" by simp
next
  fix s fs ok y line s1 fl ya s2 fs2
  assume rl: "(ok, y) = readLine s" "(line, s1) = y" and ok: "\<not> \<not> ok"
    and d: "(fl, ya) = dispatch s1 fs line" "fl = Continue" "(s2, fs2) = ya"
  have "rx_size s1 < rx_size s"
    using readLine_size(2) [of s] rl ok by (metis fst_conv snd_conv)
  moreover have "rx_size s2 \<le> rx_size s1"
    using dispatch_size [of s1 fs line] d by (metis fst_conv snd_conv)
  ultimately show "((s2, fs2), s, fs) \<in> measure (\<lambda>(s, fs). rx_size s)" by simp
qed

declare session_loop.simps [simp del]

definition close_sock :: "sock \<Rightarrow> sock" where
  "close_sock s = s\<lparr>is_closed := True\<rparr>"

definition handle_client :: "sock \<Rightarrow> filesys \<Rightarrow> sock \<times> filesys" where
  "handle_client client_sock serve_dir =
     (case session_loop client_sock serve_dir of
        (Uncaught, s, fs) \<Rightarrow> (s, fs)
      | (fl, s, fs) \<Rightarrow> (close_sock s, fs))"

section \<open>Vocabulary of the statements\<close>

text \<open>A send script on which no \<^verbatim>\<open>send\<close> fails for good: the kernel may take the
  bytes in pieces and calls may be interrupted, but every byte handed to \<^verbatim>\<open>sendAll\<close>
  reaches the peer.\<close>

fun send_ev_ok :: "send_ev \<Rightarrow> bool" where
  "send_ev_ok (Sent n) = (0 < n)"
| "send_ev_ok SendIntr = True"
| "send_ev_ok SendErr = False"

definition tx_ok :: "sock \<Rightarrow> bool" where
  "tx_ok s = list_all send_ev_ok (tx s)"

text \<open>The bytes the peer delivers before the connection ends or fails: the segments of
  the receive script up to its end or its first failed \<^verbatim>\<open>recv\<close>, interrupted calls
  left aside.\<close>

fun rx_data :: "recv_ev list \<Rightarrow> string" where
  "rx_data [] = []"
| "rx_data (Bytes bs # es) = bs @ rx_data es"
| "rx_data (RecvIntr # es) = rx_data es"
| "rx_data (RecvErr # es) = []"

text \<open>The digits \<^verbatim>\<open>std::stoull\<close> converts in a line, those after the white space and
  an optional sign, and the number a string of digits denotes.\<close>

definition size_digits :: "string \<Rightarrow> string" where
  "size_digits str =
     (let s1 = dropWhile isspace str;
          s2 = (if s1 \<noteq> [] \<and> (hd s1 = CHR ''-'' \<or> hd s1 = CHR ''+'') then tl s1 else s1)
      in takeWhile isdigit s2)"

definition decimal_value :: "string \<Rightarrow> nat" where
  "decimal_value ds = foldl (\<lambda>a c. 10 * a + digit_val c) 0 ds"

text \<open>The reading of the specification's words "a decimal number": a line made of
  decimal digits and nothing else.\<close>

definition spec_decimal_number :: "string \<Rightarrow> bool" where
  "spec_decimal_number str \<longleftrightarrow> str \<noteq> [] \<and> list_all isdigit str"

section \<open>Properties of the filename guard\<close>

lemma find_char_None: "find_char s ch = None \<longleftrightarrow> ch \<notin> set s"
  by (induction s) auto

lemma find_str_None: "find_str s pat = None \<longleftrightarrow> \<not> (\<exists>u v. s = u @ pat @ v)"
proof (induction s)
  case Nil
  then show ?case by auto
next
  case (Cons c s)
  show ?case
  proof (cases "prefix pat (c # s)")
    case True
    then obtain v where "c # s = pat @ v" by (auto simp: prefix_def)
    then have "c # s = [] @ pat @ v" by simp
    with True show ?thesis by (metis find_str.simps(2) option.distinct(1))
  next
    case False
    have "(\<exists>u v. c # s = u @ pat @ v) \<longleftrightarrow> (\<exists>u v. s = u @ pat @ v)"
    proof
      assume "\<exists>u v. c # s = u @ pat @ v"
      then obtain u v where uv: "c # s = u @ pat @ v" by blast
      show "\<exists>u v. s = u @ pat @ v"
      proof (cases u)
        case Nil
        with uv have "prefix pat (c # s)" by (simp add: prefix_def)
        with False show ?thesis by simp
      next
        case (Cons a u')
        with uv have "s = u' @ pat @ v" by simp
        then show ?thesis by blast
      qed
    next
      assume "\<exists>u v. s = u @ pat @ v"
      then obtain u v where "s = u @ pat @ v" by blast
      then have "c # s = (c # u) @ pat @ v" by simp
      then show "\<exists>u v. c # s = u @ pat @ v" by blast
    qed
    with False Cons show ?thesis by simp
  qed
qed

lemma isSafeFilename_conv:
  "isSafeFilename fn \<longleftrightarrow>
     fn \<noteq> [] \<and> CHR ''/'' \<notin> set fn \<and> BACKSLASH \<notin> set fn \<and> \<not> (\<exists>u v. fn = u @ ''..'' @ v)"
  unfolding isSafeFilename_def
  by (simp add: find_char_None find_str_None del: append.simps)

text \<open>
  C1. \<open>isSafeFilename\<close> returns false exactly when the name is empty, contains a forward
  slash, contains a backslash, or contains the two-character substring \<open>..\<close>; so it
  returns true for every non-empty name with none of those.
\<close>

theorem isSafeFilename_iff:
  "isSafeFilename fn = False \<longleftrightarrow>
     (fn = [] \<or> CHR ''/'' \<in> set fn \<or> BACKSLASH \<in> set fn \<or> (\<exists>u v. fn = u @ ''..'' @ v))"
  by (auto simp: isSafeFilename_conv)

section \<open>Sending over a connection that works\<close>

lemma send_ok:
  assumes "tx_ok s" and "buf \<noteq> []" and "send s buf = (sent, e, s')"
  shows "tx_ok s'"
    and "sent \<le> 0 \<Longrightarrow> sent < 0 \<and> e = EINTR \<and> out s' = out s"
    and "\<not> sent \<le> 0 \<Longrightarrow> nat sent \<le> length buf \<and> out s' = out s @ take (nat sent) buf"
  using assms
  by (auto simp: send_def tx_ok_def min_def split: list.splits send_ev.splits if_splits)

lemma sendAll_loop_ok:
  "tx_ok s \<Longrightarrow> tot \<le> length buf \<Longrightarrow>
     fst (sendAll_loop s buf tot) = int (length buf) \<and>
     out (snd (sendAll_loop s buf tot)) = out s @ drop tot buf \<and>
     tx_ok (snd (sendAll_loop s buf tot))"
proof (induction s buf tot rule: sendAll_loop.induct)
  case (1 s buf tot)
  obtain sent e s' where sd: "send s (drop tot buf) = (sent, e, s')"
    by (cases "send s (drop tot buf)") auto
  show ?case
  proof (cases "tot < length buf")
    case False
    then have "sendAll_loop s buf tot = (int tot, s)"
      by (simp add: sendAll_loop.simps [of s buf tot])
    with False 1(3) 1(4) show ?thesis by simp
  next
    case True
    then have ne: "drop tot buf \<noteq> []" by simp
    note ok = send_ok [OF 1(3) ne sd]
    show ?thesis
    proof (cases "sent \<le> 0")
      case neg: True
      with ok(2) have e: "sent < 0" "e = EINTR" "out s' = out s" by simp_all
      have "fst (sendAll_loop s' buf tot) = int (length buf) \<and>
            out (snd (sendAll_loop s' buf tot)) = out s' @ drop tot buf \<and>
            tx_ok (snd (sendAll_loop s' buf tot))"
        using 1(1) [OF True sd [symmetric] refl neg] e ok(1) 1(4) by simp
      with True neg e show ?thesis
        by (simp add: sendAll_loop.simps [of s buf tot] sd)
    next
      case pos: False
      with ok(3) have le: "nat sent \<le> length (drop tot buf)"
        and o: "out s' = out s @ take (nat sent) (drop tot buf)" by simp_all
      from le True have le': "tot + nat sent \<le> length buf" by simp
      have ih: "fst (sendAll_loop s' buf (tot + nat sent)) = int (length buf) \<and>
            out (snd (sendAll_loop s' buf (tot + nat sent))) = out s' @ drop (tot + nat sent) buf \<and>
            tx_ok (snd (sendAll_loop s' buf (tot + nat sent)))"
        using 1(2) [OF True sd [symmetric] refl pos] ok(1) le' by simp
      have "take (nat sent) (drop tot buf) @ drop (tot + nat sent) buf = drop tot buf"
        by (metis add.commute append_take_drop_id drop_drop)
      with True pos ih o show ?thesis
        by (simp add: sendAll_loop.simps [of s buf tot] sd)
    qed
  qed
qed

lemma sendAll_ok:
  assumes "tx_ok s"
  shows "fst (sendAll s buf) = int (length buf)"
    and "out (snd (sendAll s buf)) = out s @ buf"
    and "tx_ok (snd (sendAll s buf))"
  using sendAll_loop_ok [OF assms, of 0 buf] by (simp_all add: sendAll_def)

lemma sendLine_ok:
  assumes "tx_ok s"
  shows "fst (sendLine s line)"
    and "out (snd (sendLine s line)) = out s @ line @ [NL]"
    and "tx_ok (snd (sendLine s line))"
proof -
  obtain r s' where sa: "sendAll s (line @ [NL]) = (r, s')"
    by (cases "sendAll s (line @ [NL])") auto
  have "r = int (length (line @ [NL]))" "out s' = out s @ line @ [NL]" "tx_ok s'"
    using sendAll_ok [OF assms, of "line @ [NL]"] by (simp_all add: sa)
  then show "fst (sendLine s line)" "out (snd (sendLine s line)) = out s @ line @ [NL]"
    "tx_ok (snd (sendLine s line))"
    by (simp_all add: sendLine_def sa)
qed

lemma send_ERR_ok:
  assumes "tx_ok s"
  shows "out (send_ERR s msg) = out s @ ''ERR'' @ [NL] @ msg @ [NL]"
    and "tx_ok (send_ERR s msg)"
  using sendLine_ok(2,3) [OF sendLine_ok(3) [OF assms, of "''ERR''"], of msg]
    sendLine_ok(2) [OF assms, of "''ERR''"]
  by (simp_all add: send_ERR_def)

lemma send_file_ok:
  "tx_ok s \<Longrightarrow> out (send_file s rest) = out s @ rest \<and> tx_ok (send_file s rest)"
proof (induction s rest rule: send_file.induct)
  case (1 s rest)
  let ?chunk = "take BUFFER_SIZE rest"
  obtain r s' where sa: "sendAll s ?chunk = (r, s')"
    by (cases "sendAll s ?chunk") auto
  have ok: "r = int (length ?chunk)" "out s' = out s @ ?chunk" "tx_ok s'"
    using sendAll_ok [OF 1(2), of ?chunk] sa by simp_all
  show ?case
  proof (cases "0 < length ?chunk")
    case False
    then have "rest = []" by (auto simp: BUFFER_SIZE_def)
    with 1(2) show ?thesis by (simp add: send_file.simps [of s "[]"] Let_def)
  next
    case True
    show ?thesis
    proof (cases "length ?chunk = BUFFER_SIZE")
      case full: True
      have "out (send_file s' (drop BUFFER_SIZE rest)) = out s' @ drop BUFFER_SIZE rest \<and>
            tx_ok (send_file s' (drop BUFFER_SIZE rest))"
        using 1(1) [OF refl refl True sa [symmetric] _ full] ok by simp
      with True full ok show ?thesis
        by (simp add: send_file.simps [of s rest] Let_def sa)
    next
      case part: False
      then have eq: "?chunk = rest" by (simp add: min_def split: if_splits)
      with sa have sa': "sendAll s rest = (r, s')" by simp
      from True part ok eq show ?thesis
        by (simp add: send_file.simps [of s rest] Let_def sa')
    qed
  qed
qed


section \<open>Receiving: what the framing layer takes off the stream\<close>

lemma recv_from_data:
  "recv_from es len = (r, e, got, es') \<Longrightarrow> 0 < len \<Longrightarrow>
     (0 < r \<longrightarrow> nat r = length got \<and> nat r \<le> len \<and> rx_data es = got @ rx_data es') \<and>
     (r < 0 \<and> e = EINTR \<longrightarrow> rx_data es' = rx_data es) \<and>
     (r \<le> 0 \<and> \<not> (r < 0 \<and> e = EINTR) \<longrightarrow> rx_data es = [])"
proof (induction es len arbitrary: r e got es' rule: recv_from.induct)
  case (2 bs es len)
  show ?case
  proof (cases "bs = []")
    case True
    with 2 show ?thesis by fastforce
  next
    case False
    with 2(2) 2(3) show ?thesis
      by (cases "length bs \<le> len")
        (auto simp: min_def append_eq_conv_conj split: if_splits)
  qed
qed auto

lemma recv_data:
  assumes "recv s len = (r, e, got, s')" and "0 < len"
  shows "tx s' = tx s" and "out s' = out s" and "is_closed s' = is_closed s"
    and "0 < r \<Longrightarrow> nat r = length got \<and> nat r \<le> len \<and> rx_data (rx s) = got @ rx_data (rx s')"
    and "r < 0 \<Longrightarrow> e = EINTR \<Longrightarrow> rx_data (rx s') = rx_data (rx s)"
    and "r \<le> 0 \<Longrightarrow> \<not> (r < 0 \<and> e = EINTR) \<Longrightarrow> rx_data (rx s) = []"
proof -
  obtain es' where rf: "recv_from (rx s) len = (r, e, got, es')" and s': "s' = s\<lparr>rx := es'\<rparr>"
    using assms(1) by (auto simp: recv_def split: prod.splits)
  note d = recv_from_data [OF rf assms(2)]
  show "tx s' = tx s" "out s' = out s" "is_closed s' = is_closed s" by (simp_all add: s')
  show "0 < r \<Longrightarrow> nat r = length got \<and> nat r \<le> len \<and> rx_data (rx s) = got @ rx_data (rx s')"
    using d by (simp add: s')
  show "r < 0 \<Longrightarrow> e = EINTR \<Longrightarrow> rx_data (rx s') = rx_data (rx s)"
    using d by (simp add: s')
  show "r \<le> 0 \<Longrightarrow> \<not> (r < 0 \<and> e = EINTR) \<Longrightarrow> rx_data (rx s) = []"
    using d by (simp add: s')
qed

text \<open>What \<open>readLine\<close> computes, for any accumulated prefix of the line.\<close>

lemma readLine_loop_spec:
  "readLine_loop s acc = (ok, line, s') \<Longrightarrow>
     tx s' = tx s \<and> out s' = out s \<and> is_closed s' = is_closed s \<and>
     ok = (NL \<in> set (rx_data (rx s))) \<and>
     (ok \<longrightarrow>
        line = acc @ filter (\<lambda>c. c \<noteq> CR) (takeWhile (\<lambda>c. c \<noteq> NL) (rx_data (rx s))) \<and>
        rx_data (rx s') = tl (dropWhile (\<lambda>c. c \<noteq> NL) (rx_data (rx s))))"
proof (induction s acc arbitrary: ok line s' rule: readLine_loop.induct)
  case (1 s outLine)
  obtain r e bs s1 where rc: "recv s 1 = (r, e, bs, s1)"
    by (cases "recv s 1") auto
  have rc': "recv s (Suc 0) = (r, e, bs, s1)" using rc by simp
  note d = recv_data [OF rc]
  note fr = d(1-3) [OF zero_less_one]
  note ih1 = 1(1) [OF rc [symmetric] refl refl _ refl]
  note ih2 = 1(2) [OF rc [symmetric] refl refl _ refl]
  note ih3 = 1(3) [OF rc [symmetric] refl refl]
  note eq = 1(4) [unfolded readLine_loop.simps [of s outLine] rc prod.case]
  consider (byte) "r = 1" | (eof) "r = 0" | (intr) "r \<noteq> 1" "r \<noteq> 0" "e = EINTR"
    | (fail) "r \<noteq> 1" "r \<noteq> 0" "e \<noteq> EINTR" by blast
  then show ?case
  proof cases
    case byte
    with d(4) have "length bs = 1" and D: "rx_data (rx s) = bs @ rx_data (rx s1)" by simp_all
    then obtain c where bs: "bs = [c]" by (cases bs) auto
    show ?thesis
    proof (cases "c = NL")
      case True
      with eq byte bs D fr show ?thesis by (auto simp: Let_def)
    next
      case nl: False
      show ?thesis
      proof (cases "c = CR")
        case True
        with eq byte bs nl have "readLine_loop s1 outLine = (ok, line, s')" by (simp add: Let_def)
        with ih2 byte bs nl True D fr show ?thesis by simp
      next
        case False
        with eq byte bs nl have "readLine_loop s1 (outLine @ [c]) = (ok, line, s')"
          by (simp add: Let_def)
        with ih1 byte bs nl False D fr show ?thesis by simp
      qed
    qed
  next
    case eof
    with d(6) have "rx_data (rx s) = []" by simp
    with eq eof fr show ?thesis by auto
  next
    case intr
    have "r \<le> 1"
    proof (rule ccontr)
      assume "\<not> r \<le> 1"
      with d(4) show False by (simp, linarith)
    qed
    with intr have neg: "r < 0" by simp
    with d(5) intr have D: "rx_data (rx s1) = rx_data (rx s)" by simp
    from eq intr have "readLine_loop s1 outLine = (ok, line, s')" by simp
    from ih3 [OF intr this] D fr show ?thesis by simp
  next
    case fail
    have "r \<le> 1"
    proof (rule ccontr)
      assume "\<not> r \<le> 1"
      with d(4) show False by (simp, linarith)
    qed
    with fail have neg: "r < 0" by simp
    with d(6) fail have "rx_data (rx s) = []" by simp
    with eq fail fr show ?thesis by auto
  qed
qed


lemma readLine_frame:
  assumes "readLine s = (ok, line, s')"
  shows "tx s' = tx s" "out s' = out s" "is_closed s' = is_closed s" "tx_ok s' = tx_ok s"
  using readLine_loop_spec [of s "[]" ok line s'] assms
  by (simp_all add: readLine_def tx_ok_def)

text \<open>
  C3, as the code has it. \<open>readLine\<close> succeeds exactly when the peer delivers a
  newline before the connection ends or fails. The line it returns is made of the bytes
  before the first newline with every carriage return among them dropped, wherever it
  stands, and all other bytes kept in order; the bytes after that newline are left on
  the stream. With no newline before the end of the stream or a failed \<^verbatim>\<open>recv\<close>, it
  returns failure.
\<close>

theorem readLine_drops_every_CR:
  assumes "readLine s = (ok, line, s')"
  shows "ok = (NL \<in> set (rx_data (rx s))) \<and>
         (ok \<longrightarrow>
            line = filter (\<lambda>c. c \<noteq> CR) (takeWhile (\<lambda>c. c \<noteq> NL) (rx_data (rx s))) \<and>
            rx_data (rx s') = tl (dropWhile (\<lambda>c. c \<noteq> NL) (rx_data (rx s))))"
  using readLine_loop_spec [of s "[]" ok line s'] assms
  by (simp add: readLine_def)

text \<open>The line \<open>a CR b CR NL\<close> followed by \<open>c\<close>: both carriage returns go, \<open>c\<close> stays
  on the stream.\<close>

theorem readLine_drops_every_CR_witness:
  "readLine \<lparr>rx = [Bytes [CHR ''a'', CR, CHR ''b'', CR, NL, CHR ''c'']], tx = [], out = [], is_closed = False\<rparr>
     = (True, ''ab'', \<lparr>rx = [Bytes ''c''], tx = [], out = [], is_closed = False\<rparr>) \<and>
   NL \<in> set (rx_data [Bytes [CHR ''a'', CR, CHR ''b'', CR, NL, CHR ''c'']]) \<and>
   ''ab'' = filter (\<lambda>c. c \<noteq> CR) (takeWhile (\<lambda>c. c \<noteq> NL)
              (rx_data [Bytes [CHR ''a'', CR, CHR ''b'', CR, NL, CHR ''c'']])) \<and>
   rx_data [Bytes ''c''] = tl (dropWhile (\<lambda>c. c \<noteq> NL)
              (rx_data [Bytes [CHR ''a'', CR, CHR ''b'', CR, NL, CHR ''c'']]))"
proof -
  have h: "readLine \<lparr>rx = [Bytes [CHR ''a'', CR, CHR ''b'', CR, NL, CHR ''c'']], tx = [], out = [], is_closed = False\<rparr>
     = (True, ''ab'', \<lparr>rx = [Bytes ''c''], tx = [], out = [], is_closed = False\<rparr>)"
    by code_simp
  from readLine_drops_every_CR [OF h] h show ?thesis by simp
qed

text \<open>
  C3 as the specification words it, with only a carriage return right before the newline
  stripped, fails: from the bytes \<open>a CR b NL\<close> the code returns \<open>ab\<close>, not \<open>a CR b\<close>.
\<close>

theorem readLine_inner_CR_counterexample:
  "readLine \<lparr>rx = [Bytes [CHR ''a'', CR, CHR ''b'', NL]], tx = [], out = [], is_closed = False\<rparr>
     = (True, ''ab'', \<lparr>rx = [], tx = [], out = [], is_closed = False\<rparr>) \<and>
   ''ab'' \<noteq> [CHR ''a'', CR, CHR ''b'']"
proof -
  have "readLine \<lparr>rx = [Bytes [CHR ''a'', CR, CHR ''b'', NL]], tx = [], out = [], is_closed = False\<rparr>
     = (True, ''ab'', \<lparr>rx = [], tx = [], out = [], is_closed = False\<rparr>)"
    by code_simp
  then show ?thesis by simp
qed




section \<open>Writing a file\<close>

text \<open>Creating and writing one file leaves every other entry of the directory alone.\<close>

lemma fs_status_File:
  assumes "fs_status fs name = Some (File content)"
  shows "length (os_name name) \<le> NAME_MAX" and "os_name name \<noteq> []"
    and "os_name name \<noteq> ''.''" and "map_of (entries fs) (os_name name) = Some (File content)"
  using assms by (auto simp: fs_status_def split: if_splits)


lemma fs_status_update:
  "fs_status (fs\<lparr>entries := AList.update k e (entries fs)\<rparr>) name =
     (if os_name name = k \<and> length k \<le> NAME_MAX \<and> k \<noteq> [] \<and> k \<noteq> ''.'' then Some e
      else fs_status fs name)"
  by (auto simp: fs_status_def update_conv')

lemma ofstream_open_Some:
  assumes "ofstream_open fs name = Some fs1"
  shows "fs_status fs1 name = Some (File [])"
    and "os_name name' \<noteq> os_name name \<Longrightarrow> fs_status fs1 name' = fs_status fs name'"
    and "unreadable fs1 = unreadable fs" and "write_ok fs1 = write_ok fs"
    and "name \<notin> set (unwritable fs)"
    and "k \<noteq> os_name name \<Longrightarrow> map_of (entries fs1) k = map_of (entries fs) k"
proof -
  from assms have fs1: "fs1 = fs\<lparr>entries := AList.update (os_name name) (File []) (entries fs)\<rparr>"
    by (auto simp: ofstream_open_def split: option.splits entry.splits if_splits)
  from assms have key: "length (os_name name) \<le> NAME_MAX" "os_name name \<noteq> []"
    "os_name name \<noteq> ''.''"
    by (auto simp: ofstream_open_def fs_status_def split: option.splits entry.splits if_splits)
  show "fs_status fs1 name = Some (File [])"
    using key by (simp add: fs1 fs_status_update)
  show "os_name name' \<noteq> os_name name \<Longrightarrow> fs_status fs1 name' = fs_status fs name'"
    by (simp add: fs1 fs_status_update)
  show "unreadable fs1 = unreadable fs" "write_ok fs1 = write_ok fs" by (simp_all add: fs1)
  from assms show "name \<notin> set (unwritable fs)"
    by (auto simp: ofstream_open_def split: option.splits entry.splits if_splits)
  show "k \<noteq> os_name name \<Longrightarrow> map_of (entries fs1) k = map_of (entries fs) k"
    by (simp add: fs1 update_conv')
qed



section \<open>Commands and the loop\<close>

lemma rfind_0 [simp]: "rfind line pat 0 = Some 0 \<longleftrightarrow> prefix pat line"
  by simp

lemma session_loop_continue:
  "readLine s0 = (True, line, s) \<Longrightarrow> dispatch s fs line = (Continue, s', fs') \<Longrightarrow>
     session_loop s0 fs = session_loop s' fs'"
  by (simp add: session_loop.simps [of s0 fs])

lemma session_loop_break:
  "readLine s0 = (True, line, s) \<Longrightarrow> dispatch s fs line = (Break, s', fs') \<Longrightarrow>
     session_loop s0 fs = (Break, s', fs')"
  by (simp add: session_loop.simps [of s0 fs])

lemma session_loop_uncaught:
  "readLine s0 = (True, line, s) \<Longrightarrow> dispatch s fs line = (Uncaught, s', fs') \<Longrightarrow>
     session_loop s0 fs = (Uncaught, s', fs')"
  by (simp add: session_loop.simps [of s0 fs])

lemma session_loop_eof:
  "readLine s0 = (False, line, s) \<Longrightarrow> session_loop s0 fs = (Break, s, fs)"
  by (simp add: session_loop.simps [of s0 fs])

lemma dispatch_GET: "dispatch s fs (''GET '' @ fn) = handle_GET s fs fn"
  by (simp add: dispatch_def parse_command_def)

lemma dispatch_PUT: "dispatch s fs (''PUT '' @ fn) = handle_PUT s fs fn"
  by (simp add: dispatch_def parse_command_def)



section \<open>Leaving the loop\<close>

text \<open>
  Every \<^verbatim>\<open>break\<close> leads to \<^verbatim>\<open>close\<close>: when \<open>readLine\<close> fails, when a command breaks
  out of the loop, and on a QUIT line, which sends nothing before the close. The worker
  ends with the connection closed exactly when the loop was not left by an exception.
\<close>

lemma break_exits_close:
  "(\<forall>line s1. readLine s = (False, line, s1) \<longrightarrow> handle_client s fs = (close_sock s1, fs)) \<and>
   (\<forall>line s1. readLine s = (True, line, s1) \<and> prefix ''QUIT'' line \<longrightarrow>
        handle_client s fs = (close_sock s1, fs) \<and> out s1 = out s \<and> tx s1 = tx s) \<and>
   (\<forall>line s1 s2 fs2. readLine s = (True, line, s1) \<and> dispatch s1 fs line = (Break, s2, fs2) \<longrightarrow>
        handle_client s fs = (close_sock s2, fs2))"
proof -
  have "handle_client s fs = (close_sock s1, fs)"
    if "readLine s = (False, line, s1)" for line s1
    using session_loop_eof [OF that] by (simp add: handle_client_def)
  moreover have "handle_client s fs = (close_sock s1, fs) \<and> out s1 = out s \<and> tx s1 = tx s"
    if "readLine s = (True, line, s1) \<and> prefix ''QUIT'' line" for line s1
  proof -
    from that have rl: "readLine s = (True, line, s1)" and q: "prefix ''QUIT'' line" by simp_all
    have "\<not> prefix ''LIST'' line \<and> \<not> prefix ''GET '' line \<and> \<not> prefix ''PUT '' line"
      using q by (auto simp: prefix_def)
    with q have "dispatch s1 fs line = (Break, s1, fs)"
      by (simp add: parse_command_def dispatch_def)
    from session_loop_break [OF rl this] readLine_frame [OF rl] show ?thesis
      by (simp add: handle_client_def)
  qed
  moreover have "handle_client s fs = (close_sock s2, fs2)"
    if "readLine s = (True, line, s1) \<and> dispatch s1 fs line = (Break, s2, fs2)" for line s1 s2 fs2
    using session_loop_break [of s line s1 fs s2 fs2] that by (simp add: handle_client_def)
  ultimately show ?thesis by blast
qed

lemma session_loop_exit: "fst (session_loop s fs) \<noteq> Continue"
proof (induction s fs rule: session_loop.induct)
  case (1 s fs)
  obtain ok line s1 where rl: "readLine s = (ok, line, s1)"
    by (cases "readLine s") auto
  obtain fl s2 fs2 where d: "dispatch s1 fs line = (fl, s2, fs2)"
    by (cases "dispatch s1 fs line") auto
  show ?case
  proof (cases "ok \<and> fl = Continue")
    case True
    with 1 [OF rl [symmetric] refl _ d [symmetric] _ refl] rl d show ?thesis
      by (simp add: session_loop.simps [of s fs])
  next
    case False
    with rl d show ?thesis
      by (cases fl) (auto simp: session_loop.simps [of s fs])
  qed
qed

lemma closed_iff_no_exception:
  "is_closed (fst (handle_client s fs)) \<longleftrightarrow>
     is_closed (fst (snd (session_loop s fs))) \<or> fst (session_loop s fs) = Break"
  using session_loop_exit [of s fs]
  by (cases "session_loop s fs"; cases "fst (session_loop s fs)")
    (auto simp: handle_client_def close_sock_def)

text \<open>A name too long for the system: \<^verbatim>\<open>fs::exists\<close> throws, nothing is sent, and the
  loop is left by the exception.\<close>

lemma GET_name_too_long:
  assumes "isSafeFilename fn" and "NAME_MAX < length (os_name fn)"
  shows "dispatch s fs (''GET '' @ fn) = (Uncaught, s, fs)"
    and "readLine s0 = (True, ''GET '' @ fn, s) \<Longrightarrow> handle_client s0 fs = (s, fs)"
proof -
  show d: "dispatch s fs (''GET '' @ fn) = (Uncaught, s, fs)"
    unfolding dispatch_GET using assms by (simp add: handle_GET_def fs_exists_def)
  show "readLine s0 = (True, ''GET '' @ fn, s) \<Longrightarrow> handle_client s0 fs = (s, fs)"
    using session_loop_uncaught [OF _ d, of s0] by (simp add: handle_client_def)
qed

text \<open>
  C9. The claim that no path out of the session loop leaves the connection open fails on
  the code. The client sends \<open>LIST\<close> and then \<open>GET\<close> with a name of 256 bytes: the
  listing is answered, then \<^verbatim>\<open>fs::exists\<close> throws on the name, nothing catches the
  exception, and the worker ends without having closed the connection.
\<close>

theorem worker_leaves_connection_open:
  "handle_client
     \<lparr>rx = [Bytes (''LIST'' @ [NL] @ ''GET '' @ replicate 256 (CHR ''a'') @ [NL])], tx = [],
      out = [], is_closed = False\<rparr>
     \<lparr>entries = [], unreadable = [], unwritable = [], write_ok = []\<rparr>
   = (\<lparr>rx = [], tx = [], out = ''OK'' @ [NL] @ ''0'' @ [NL], is_closed = False\<rparr>,
      \<lparr>entries = [], unreadable = [], unwritable = [], write_ok = []\<rparr>)"
  by code_simp

section \<open>GET of a file that is not there\<close>

text \<open>
  For a name the system accepts, the answer is as the specification says: \<open>ERR\<close> and
  \<open>File not found\<close>, nothing consumed, no file touched, and the loop goes on.
\<close>

lemma GET_not_found:
  assumes safe: "isSafeFilename fn"
    and short: "length (os_name fn) \<le> NAME_MAX"
    and missing: "\<forall>content. fs_status fs fn \<noteq> Some (File content)"
    and tx: "tx_ok s"
  shows "\<exists>s'. dispatch s fs (''GET '' @ fn) = (Continue, s', fs) \<and>
           out s' = out s @ ''ERR'' @ [NL] @ ''File not found'' @ [NL] \<and>
           rx s' = rx s \<and> is_closed s' = is_closed s \<and> tx_ok s' \<and>
           (\<forall>s0. readLine s0 = (True, ''GET '' @ fn, s) \<longrightarrow>
                 session_loop s0 fs = session_loop s' fs)"
proof -
  let ?s' = "send_ERR s ''File not found''"
  have d: "dispatch s fs (''GET '' @ fn) = (Continue, ?s', fs)"
    unfolding dispatch_GET using safe short missing
    by (auto simp: handle_GET_def fs_exists_def is_regular_file_def
        split: option.splits entry.splits)
  moreover have "out ?s' = out s @ ''ERR'' @ [NL] @ ''File not found'' @ [NL]" "tx_ok ?s'"
    using send_ERR_ok [OF tx] by simp_all
  moreover have "\<forall>s0. readLine s0 = (True, ''GET '' @ fn, s) \<longrightarrow>
      session_loop s0 fs = session_loop ?s' fs"
    using d by (auto intro: session_loop_continue)
  ultimately show ?thesis by (intro exI [of _ ?s']) simp
qed

text \<open>
  C5. The claim fails on the code for a name that passes the filename guard but is too
  long for the system. The client sends \<open>GET\<close> with a name of 256 bytes, which names no
  file of the empty directory, and then \<open>LIST\<close>: \<^verbatim>\<open>fs::exists\<close> throws, no \<open>ERR\<close> and no
  \<open>File not found\<close> is sent, the worker ends, and the \<open>LIST\<close> is left unread.
\<close>

theorem GET_long_name_not_answered:
  "isSafeFilename (replicate 256 (CHR ''n'')) \<and>
   fs_status \<lparr>entries = [], unreadable = [], unwritable = [], write_ok = []\<rparr>
     (replicate 256 (CHR ''n'')) = None \<and>
   handle_client
     \<lparr>rx = [Bytes (''GET '' @ replicate 256 (CHR ''n'') @ [NL] @ ''LIST'' @ [NL])], tx = [],
      out = [], is_closed = False\<rparr>
     \<lparr>entries = [], unreadable = [], unwritable = [], write_ok = []\<rparr>
   = (\<lparr>rx = [Bytes (''LIST'' @ [NL])], tx = [], out = [], is_closed = False\<rparr>,
      \<lparr>entries = [], unreadable = [], unwritable = [], write_ok = []\<rparr>)"
  by code_simp

section \<open>The size line of PUT\<close>

text \<open>What \<^verbatim>\<open>std::stoull\<close> converts and what it refuses: it throws exactly when no digit
  follows the white space and the optional sign, or when the digits denote more than
  \<^verbatim>\<open>ULLONG_MAX\<close>. A line that only begins with digits is converted.\<close>

lemma stoull_throws_iff:
  "(\<exists>exn. stoull str = Inl exn) \<longleftrightarrow>
     size_digits str = [] \<or> ULLONG_MAX < decimal_value (size_digits str)"
  by (auto simp: stoull_def size_digits_def decimal_value_def Let_def)


lemma stoull_examples:
  "stoull ''12'' = Inr 12"
  "stoull ''12abc'' = Inr 12"
  "stoull '' +7'' = Inr 7"
  "stoull ''-1'' = Inr 18446744073709551615"
  "stoull ''abc'' = Inl invalid_argument"
  "stoull [] = Inl invalid_argument"
  "stoull ''18446744073709551616'' = Inl out_of_range"
  by (simp_all add: stoull_def isspace_def isdigit_def digit_val_def ULLONG_MAX_def)

text \<open>
  C6, as the code has it. A PUT with a safe filename whose size line \<^verbatim>\<open>std::stoull\<close>
  refuses, because no digit follows the leading white space and optional sign or because
  the digits denote more than \<open>2 ^ 64 - 1\<close>: the server sends \<open>ERR\<close> and
  \<open>Invalid size header\<close>, takes nothing off the stream after the size line, leaves the
  directory as it was, and goes on to read the next command.
\<close>

theorem PUT_bad_size:
  assumes safe: "isSafeFilename fn"
    and rl: "readLine s = (True, sizeLine, s1)"
    and bad: "size_digits sizeLine = [] \<or> ULLONG_MAX < decimal_value (size_digits sizeLine)"
    and tx: "tx_ok s"
  shows "\<exists>s'. dispatch s fs (''PUT '' @ fn) = (Continue, s', fs) \<and>
           out s' = out s @ ''ERR'' @ [NL] @ ''Invalid size header'' @ [NL] \<and>
           rx s' = rx s1 \<and> is_closed s' = is_closed s \<and> tx_ok s' \<and>
           (\<forall>s0. readLine s0 = (True, ''PUT '' @ fn, s) \<longrightarrow>
                 session_loop s0 fs = session_loop s' fs)"
proof -
  let ?s' = "send_ERR s1 ''Invalid size header''"
  from bad obtain exn where thrown: "stoull sizeLine = Inl exn"
    using stoull_throws_iff [of sizeLine] by blast
  note fr = readLine_frame [OF rl]
  have tx1: "tx_ok s1" using fr(4) tx by simp
  have d: "dispatch s fs (''PUT '' @ fn) = (Continue, ?s', fs)"
    unfolding dispatch_PUT using safe rl thrown by (simp add: handle_PUT_def)
  moreover have "out ?s' = out s @ ''ERR'' @ [NL] @ ''Invalid size header'' @ [NL]" "tx_ok ?s'"
    using send_ERR_ok [OF tx1] fr(2) by simp_all
  moreover have "is_closed ?s' = is_closed s" using fr(3) by simp
  moreover have "\<forall>s0. readLine s0 = (True, ''PUT '' @ fn, s) \<longrightarrow>
      session_loop s0 fs = session_loop ?s' fs"
    using d by (auto intro: session_loop_continue)
  ultimately show ?thesis by (intro exI [of _ ?s']) simp
qed

text \<open>The size line \<open>abc\<close>: what follows it stays on the stream.\<close>

theorem PUT_bad_size_witness:
  "isSafeFilename ''a.txt'' \<and>
   readLine \<lparr>rx = [Bytes (''abc'' @ [NL] @ ''LIST'' @ [NL])], tx = [], out = [], is_closed = False\<rparr>
     = (True, ''abc'', \<lparr>rx = [Bytes (''LIST'' @ [NL])], tx = [], out = [], is_closed = False\<rparr>) \<and>
   size_digits ''abc'' = [] \<and>
   (\<exists>s'. dispatch \<lparr>rx = [Bytes (''abc'' @ [NL] @ ''LIST'' @ [NL])], tx = [], out = [], is_closed = False\<rparr>
            \<lparr>entries = [], unreadable = [], unwritable = [], write_ok = []\<rparr> (''PUT '' @ ''a.txt'')
          = (Continue, s', \<lparr>entries = [], unreadable = [], unwritable = [], write_ok = []\<rparr>) \<and>
        out s' = ''ERR'' @ [NL] @ ''Invalid size header'' @ [NL] \<and>
        rx s' = [Bytes (''LIST'' @ [NL])])"
proof -
  let ?fs = "\<lparr>entries = [], unreadable = [], unwritable = [], write_ok = []\<rparr>"
  let ?s = "\<lparr>rx = [Bytes (''abc'' @ [NL] @ ''LIST'' @ [NL])], tx = [], out = [], is_closed = False\<rparr>"
  let ?s1 = "\<lparr>rx = [Bytes (''LIST'' @ [NL])], tx = [], out = [], is_closed = False\<rparr>"
  have safe: "isSafeFilename ''a.txt''" by code_simp
  have rl: "readLine ?s = (True, ''abc'', ?s1)" by code_simp
  have nodigit: "size_digits ''abc'' = []"
    by (simp add: size_digits_def isspace_def isdigit_def)
  then have bad: "size_digits ''abc'' = [] \<or> ULLONG_MAX < decimal_value (size_digits ''abc'')"
    by simp
  have tx: "tx_ok ?s" by code_simp
  from PUT_bad_size [OF safe rl bad tx] obtain s' where
    "dispatch ?s ?fs (''PUT '' @ ''a.txt'') = (Continue, s', ?fs)"
    "out s' = out ?s @ ''ERR'' @ [NL] @ ''Invalid size header'' @ [NL]"
    "rx s' = rx ?s1"
    by blast
  then have "\<exists>s'. dispatch ?s ?fs (''PUT '' @ ''a.txt'') = (Continue, s', ?fs) \<and>
        out s' = ''ERR'' @ [NL] @ ''Invalid size header'' @ [NL] \<and>
        rx s' = [Bytes (''LIST'' @ [NL])]"
    by (intro exI [of _ s']) simp
  with safe rl nodigit show ?thesis by blast
qed

text \<open>
  C6 as the specification words it, for every size line that is not a decimal number,
  fails: the line \<open>1x\<close> is not a decimal number, yet \<^verbatim>\<open>std::stoull\<close> converts its
  leading digit. The server creates the file, takes the one byte \<open>A\<close> that follows off
  the stream, stores it, and answers \<open>OK\<close>.
\<close>

theorem PUT_size_with_trailing_text_counterexample:
  "isSafeFilename ''a'' \<and> \<not> spec_decimal_number ''1x'' \<and>
   dispatch \<lparr>rx = [Bytes (''1x'' @ [NL] @ ''ALIST'' @ [NL])], tx = [], out = [], is_closed = False\<rparr>
       \<lparr>entries = [], unreadable = [], unwritable = [], write_ok = []\<rparr> (''PUT '' @ ''a'')
     = (Continue, \<lparr>rx = [Bytes (''LIST'' @ [NL])], tx = [], out = ''OK'' @ [NL], is_closed = False\<rparr>,
        \<lparr>entries = [(''a'', File ''A'')], unreadable = [], unwritable = [], write_ok = []\<rparr>)"
proof -
  let ?fs = "\<lparr>entries = [], unreadable = [], unwritable = [], write_ok = []\<rparr>"
  let ?fs1 = "\<lparr>entries = [(''a'', File [])], unreadable = [], unwritable = [], write_ok = []\<rparr>"
  let ?fs' = "\<lparr>entries = [(''a'', File ''A'')], unreadable = [], unwritable = [], write_ok = []\<rparr>"
  let ?s = "\<lparr>rx = [Bytes (''1x'' @ [NL] @ ''ALIST'' @ [NL])], tx = [], out = [], is_closed = False\<rparr>"
  let ?s1 = "\<lparr>rx = [Bytes (''ALIST'' @ [NL])], tx = [], out = [], is_closed = False\<rparr>"
  let ?s2 = "\<lparr>rx = [Bytes (''LIST'' @ [NL])], tx = [], out = [], is_closed = False\<rparr>"
  let ?s' = "\<lparr>rx = [Bytes (''LIST'' @ [NL])], tx = [], out = ''OK'' @ [NL], is_closed = False\<rparr>"
  have safe: "isSafeFilename ''a''" by code_simp
  have nodec: "\<not> spec_decimal_number ''1x''"
    by (simp add: spec_decimal_number_def isdigit_def)
  have rl: "readLine ?s = (True, ''1x'', ?s1)" by code_simp
  have sz: "stoull ''1x'' = Inr 1"
    by (simp add: stoull_def isspace_def isdigit_def digit_val_def ULLONG_MAX_def)
  have op: "ofstream_open ?fs ''a'' = Some ?fs1" by code_simp
  have rf: "recv_file ?s1 ?fs1 ''a'' 1 = (False, ?s2, ?fs')" by code_simp
  have sl: "sendLine ?s2 ''OK'' = (True, ?s')" by code_simp
  have "dispatch ?s ?fs (''PUT '' @ ''a'') = (Continue, ?s', ?fs')"
    unfolding dispatch_PUT
    by (simp add: handle_PUT_def safe rl [simplified] sz op [simplified] rf [simplified]
        sl [simplified])
  with safe nodec show ?thesis by blast
qed

section \<open>PUT of a name the guard rejects\<close>

text \<open>
  C8. A PUT whose filename contains a path separator or the substring \<open>..\<close>: the server
  sends the line \<open>ERR\<close> and the line \<open>Invalid filename\<close>, and the command changes
  nothing in the filesystem: the directory after it is the directory before it.
\<close>

theorem PUT_unsafe_filename:
  assumes unsafe: "CHR ''/'' \<in> set fn \<or> BACKSLASH \<in> set fn \<or> (\<exists>u v. fn = u @ ''..'' @ v)"
    and tx: "tx_ok s"
  shows "\<exists>s'. dispatch s fs (''PUT '' @ fn) = (Continue, s', fs) \<and>
           out s' = out s @ ''ERR'' @ [NL] @ ''Invalid filename'' @ [NL] \<and>
           rx s' = rx s \<and> is_closed s' = is_closed s"
proof -
  let ?s' = "send_ERR s ''Invalid filename''"
  have "\<not> isSafeFilename fn" using unsafe by (auto simp: isSafeFilename_conv)
  then have "dispatch s fs (''PUT '' @ fn) = (Continue, ?s', fs)"
    unfolding dispatch_PUT by (simp add: handle_PUT_def)
  moreover have "out ?s' = out s @ ''ERR'' @ [NL] @ ''Invalid filename'' @ [NL]"
    using send_ERR_ok [OF tx] by simp
  ultimately show ?thesis by (intro exI [of _ ?s']) simp
qed

text \<open>The scenario of the specification, \<open>PUT ../etc/passwd\<close>.\<close>

theorem PUT_unsafe_filename_witness:
  "CHR ''/'' \<in> set ''../etc/passwd'' \<and>
   (\<exists>s'. dispatch \<lparr>rx = [Bytes (''0'' @ [NL])], tx = [], out = [], is_closed = False\<rparr>
            \<lparr>entries = [], unreadable = [], unwritable = [], write_ok = []\<rparr> (''PUT '' @ ''../etc/passwd'')
          = (Continue, s', \<lparr>entries = [], unreadable = [], unwritable = [], write_ok = []\<rparr>) \<and>
        out s' = ''ERR'' @ [NL] @ ''Invalid filename'' @ [NL] \<and>
        rx s' = [Bytes (''0'' @ [NL])] \<and> is_closed s' = False)"
proof -
  let ?fs = "\<lparr>entries = [], unreadable = [], unwritable = [], write_ok = []\<rparr>"
  let ?s = "\<lparr>rx = [Bytes (''0'' @ [NL])], tx = [], out = [], is_closed = False\<rparr>"
  have sl: "CHR ''/'' \<in> set ''../etc/passwd''" by simp
  then have unsafe: "CHR ''/'' \<in> set ''../etc/passwd'' \<or> BACKSLASH \<in> set ''../etc/passwd'' \<or>
      (\<exists>u v. ''../etc/passwd'' = u @ ''..'' @ v)"
    by blast
  have tx: "tx_ok ?s" by code_simp
  from PUT_unsafe_filename [OF unsafe tx] obtain s' where
    "dispatch ?s ?fs (''PUT '' @ ''../etc/passwd'') = (Continue, s', ?fs)"
    "out s' = out ?s @ ''ERR'' @ [NL] @ ''Invalid filename'' @ [NL]"
    "rx s' = rx ?s" "is_closed s' = is_closed ?s"
    by blast
  then have "\<exists>s'. dispatch ?s ?fs (''PUT '' @ ''../etc/passwd'') = (Continue, s', ?fs) \<and>
        out s' = ''ERR'' @ [NL] @ ''Invalid filename'' @ [NL] \<and>
        rx s' = [Bytes (''0'' @ [NL])] \<and> is_closed s' = False"
    by (intro exI [of _ s']) simp
  with sl show ?thesis by blast
qed

text \<open>
  C2. After rejecting the filename of a PUT the code does not read the size line and
  does not drain the payload. The client sends \<open>PUT ../x\<close>, the size line \<open>3\<close>, the
  payload \<open>abc\<close> and then \<open>LIST\<close>: the size line and the payload run together with
  the next command are each taken for a command and answered \<open>Unknown command\<close>, and
  the LIST is never answered.
\<close>

theorem rejected_PUT_is_not_drained:
  "handle_client
     \<lparr>rx = [Bytes (''PUT ../x'' @ [NL] @ ''3'' @ [NL] @ ''abcLIST'' @ [NL])], tx = [], out = [],
      is_closed = False\<rparr>
     \<lparr>entries = [], unreadable = [], unwritable = [], write_ok = []\<rparr>
   = (\<lparr>rx = [], tx = [],
       out = ''ERR'' @ [NL] @ ''Invalid filename'' @ [NL] @ ''ERR'' @ [NL] @ ''Unknown command'' @ [NL]
             @ ''ERR'' @ [NL] @ ''Unknown command'' @ [NL],
       is_closed = True\<rparr>,
      \<lparr>entries = [], unreadable = [], unwritable = [], write_ok = []\<rparr>)"
  by code_simp

section \<open>The guard over a whole session\<close>

text \<open>Whatever the client sends, an entry of the directory whose name does not pass the
  filename guard is the same after the session as before it: the only entry a command
  writes is the one named by a filename that passed the guard.\<close>

lemma os_name_safe:
  assumes "isSafeFilename fn" and "os_name fn \<noteq> []"
  shows "isSafeFilename (os_name fn)"
proof -
  have split: "fn = os_name fn @ dropWhile (\<lambda>c. c \<noteq> CHR 0x00) fn"
    by (simp add: os_name_def)
  have sub: "set (os_name fn) \<subseteq> set fn"
    by (auto simp: os_name_def dest: set_takeWhileD)
  have "\<not> (\<exists>u v. os_name fn = u @ ''..'' @ v)"
  proof
    assume "\<exists>u v. os_name fn = u @ ''..'' @ v"
    then obtain u v where "os_name fn = u @ ''..'' @ v" by blast
    with split have "fn = u @ ''..'' @ (v @ dropWhile (\<lambda>c. c \<noteq> CHR 0x00) fn)"
      by (metis append.assoc)
    with assms(1) show False unfolding isSafeFilename_conv by blast
  qed
  with assms sub show ?thesis unfolding isSafeFilename_conv by blast
qed

lemma ofstream_write_keys:
  "ofstream_write fs name bytes = (ok, fs') \<Longrightarrow> k \<noteq> os_name name \<Longrightarrow>
     map_of (entries fs') k = map_of (entries fs) k"
  by (auto simp: ofstream_write_def Let_def update_conv'
      split: if_splits option.splits entry.splits)

lemma recv_file_keys:
  "recv_file s fs name n = (err, s', fs') \<Longrightarrow> k \<noteq> os_name name \<Longrightarrow>
     map_of (entries fs') k = map_of (entries fs) k"
proof (induction s fs name n arbitrary: err s' fs' rule: recv_file.induct)
  case (1 s fs filename remaining)
  define chunk where "chunk = (if BUFFER_SIZE < remaining then BUFFER_SIZE else remaining)"
  obtain got buf s1 where re: "recvExact s chunk = (got, buf, s1)"
    by (cases "recvExact s chunk") auto
  obtain ok fs1 where ow: "ofstream_write fs filename (take (nat got) buf) = (ok, fs1)"
    by (cases "ofstream_write fs filename (take (nat got) buf)") auto
  note w = ofstream_write_keys [OF ow 1(3)]
  note eq = 1(2) [unfolded recv_file.simps [of s fs filename remaining] Let_def,
      folded chunk_def, unfolded re prod.case ow]
  show ?case
  proof (cases "0 < remaining \<and> \<not> got \<le> 0 \<and> ok")
    case True
    with eq have rec: "recv_file s1 fs1 filename (remaining - nat got) = (err, s', fs')" by simp
    from True have okk: "\<not> \<not> ok" by simp
    from 1(1) [OF _ chunk_def re [symmetric] refl _ ow [symmetric] okk rec 1(3)] True w
    show ?thesis by simp
  next
    case False
    with eq w show ?thesis by (auto split: if_splits)
  qed
qed

lemma dispatch_unsafe_keys:
  assumes "dispatch s fs line = (fl, s', fs')" and "\<not> isSafeFilename k"
  shows "map_of (entries fs') k = map_of (entries fs) k"
proof (cases "parse_command line")
  case LIST
  with assms(1) show ?thesis
    by (auto simp: dispatch_def handle_LIST_def Let_def split: prod.splits if_splits)
next
  case (GET fn)
  with assms(1) show ?thesis
    by (auto simp: dispatch_def handle_GET_def Let_def split: option.splits sum.splits if_splits)
next
  case (PUT fn)
  with assms(1) have hp: "handle_PUT s fs fn = (fl, s', fs')" by (simp add: dispatch_def)
  show ?thesis
  proof (cases "isSafeFilename fn")
    case False
    with hp show ?thesis by (simp add: handle_PUT_def)
  next
    case True
    obtain ok sizeLine s1 where rl: "readLine s = (ok, sizeLine, s1)"
      by (cases "readLine s") auto
    show ?thesis
    proof (cases "ok \<and> (\<exists>sz fs1. stoull sizeLine = Inr sz \<and> ofstream_open fs fn = Some fs1)")
      case False
      with hp True rl show ?thesis
        by (auto simp: handle_PUT_def split: sum.splits option.splits if_splits)
    next
      case tr: True
      then obtain sz fs1 where sz: "stoull sizeLine = Inr sz"
        and op: "ofstream_open fs fn = Some fs1" and ok by blast
      from fs_status_File(2) [OF ofstream_open_Some(1) [OF op]] have "os_name fn \<noteq> []" .
      with True have "isSafeFilename (os_name fn)" by (rule os_name_safe)
      with assms(2) have ne: "k \<noteq> os_name fn" by auto
      obtain err s2 fs2 where rf: "recv_file s1 fs1 fn sz = (err, s2, fs2)"
        by (cases "recv_file s1 fs1 fn sz") auto
      from hp True rl sz op rf \<open>ok\<close> have "fs' = fs2"
        by (auto simp: handle_PUT_def split: if_splits)
      with recv_file_keys [OF rf ne] ofstream_open_Some(6) [OF op ne] show ?thesis by simp
    qed
  qed
next
  case QUIT
  with assms(1) show ?thesis by (simp add: dispatch_def)
next
  case Unknown
  with assms(1) show ?thesis by (simp add: dispatch_def)
qed

lemma session_loop_unsafe_keys:
  "session_loop s fs = (fl, s', fs') \<Longrightarrow> \<not> isSafeFilename k \<Longrightarrow>
     map_of (entries fs') k = map_of (entries fs) k"
proof (induction s fs arbitrary: fl s' fs' rule: session_loop.induct)
  case (1 s fs)
  obtain ok line s1 where rl: "readLine s = (ok, line, s1)"
    by (cases "readLine s") auto
  obtain fl1 s2 fs2 where d: "dispatch s1 fs line = (fl1, s2, fs2)"
    by (cases "dispatch s1 fs line") auto
  note step = dispatch_unsafe_keys [OF d 1(3)]
  note eq = 1(2) [unfolded session_loop.simps [of s fs] rl prod.case d]
  show ?case
  proof (cases "ok \<and> fl1 = Continue")
    case True
    with eq have "session_loop s2 fs2 = (fl, s', fs')" by simp
    from 1(1) [OF rl [symmetric] refl _ d [symmetric] _ refl this 1(3)] True step
    show ?thesis by simp
  next
    case False
    with eq step show ?thesis by (cases fl1) (auto split: if_splits)
  qed
qed

lemma unsafe_names_untouched:
  "handle_client s fs = (s', fs') \<Longrightarrow> \<not> isSafeFilename k \<Longrightarrow>
     map_of (entries fs') k = map_of (entries fs) k"
  using session_loop_unsafe_keys [of s fs _ _ fs' k]
  by (auto simp: handle_client_def split: prod.splits flow.splits)

section \<open>The decimal size line\<close>







section \<open>Transfers\<close>

lemma handle_GET_ok:
  assumes safe: "isSafeFilename fn"
    and reg: "fs_status fs fn = Some (File content)"
    and rd: "fn \<notin> set (unreadable fs)"
    and tx: "tx_ok s"
  shows "\<exists>s'. handle_GET s fs fn = (Continue, s', fs) \<and>
           out s' = out s @ ''OK'' @ [NL] @ to_string (length content) @ [NL] @ content \<and>
           rx s' = rx s \<and> is_closed s' = is_closed s \<and> tx_ok s'"
proof -
  let ?s1 = "snd (sendLine s ''OK'')"
  let ?s2 = "snd (sendLine ?s1 (to_string (length content)))"
  let ?s' = "send_file ?s2 content"
  note key = fs_status_File [OF reg]
  have ex: "fs_exists fs fn = Inr True" "is_regular_file fs fn = Inr True"
    "file_size fs fn = Inr (length content)" "ifstream_open fs fn = Some content"
    using reg rd key(1)
    by (simp_all add: fs_exists_def is_regular_file_def file_size_def ifstream_open_def)
  have h: "handle_GET s fs fn = (Continue, ?s', fs)"
    using safe ex by (simp add: handle_GET_def Let_def)
  note l1 = sendLine_ok [OF tx, of "''OK''"]
  note l2 = sendLine_ok [OF l1(3), of "to_string (length content)"]
  note l3 = send_file_ok [OF l2(3), of content]
  have "out ?s' = out s @ ''OK'' @ [NL] @ to_string (length content) @ [NL] @ content"
    using l1(2) l2(2) l3 by simp
  moreover have "rx ?s' = rx s" "is_closed ?s' = is_closed s"
    by (simp_all add: send_file_frame)
  ultimately show ?thesis using h l3 by (intro exI [of _ ?s']) simp
qed

lemma recv_file_0: "recv_file s fs name 0 = (False, s, fs)"
  by (simp add: recv_file.simps [of s fs name 0])

lemma to_string_0: "to_string 0 = ''0''"
  by (simp add: to_string.simps [of 0] digit_char_def)

text \<open>
  C4, as the code has it. A PUT with a safe filename, a size line that reads as 0 and a
  file that could be created: no payload byte is read, no write is made, the file exists
  and is empty, and the server answers \<open>OK\<close>. A GET of an existing empty regular file
  whose name passes the filename guard and which can be opened for reading: the server
  answers the line \<open>OK\<close>, the line \<open>0\<close>, and no payload byte.
\<close>

theorem empty_file_boundary:
  "(isSafeFilename fn \<and> readLine s = (True, sizeLine, s1) \<and> stoull sizeLine = Inr 0 \<and>
    ofstream_open fs fn = Some fs1 \<and> tx_ok s \<longrightarrow>
      (\<exists>s'. dispatch s fs (''PUT '' @ fn) = (Continue, s', fs1) \<and>
            out s' = out s @ ''OK'' @ [NL] \<and> rx s' = rx s1 \<and>
            fs_status fs1 fn = Some (File []) \<and> write_ok fs1 = write_ok fs)) \<and>
   (isSafeFilename fn \<and> fs_status gfs fn = Some (File []) \<and> fn \<notin> set (unreadable gfs) \<and>
    tx_ok t \<longrightarrow>
      (\<exists>t'. dispatch t gfs (''GET '' @ fn) = (Continue, t', gfs) \<and>
            out t' = out t @ ''OK'' @ [NL] @ ''0'' @ [NL] \<and> rx t' = rx t))"
proof (intro conjI impI)
  assume a: "isSafeFilename fn \<and> readLine s = (True, sizeLine, s1) \<and> stoull sizeLine = Inr 0 \<and>
    ofstream_open fs fn = Some fs1 \<and> tx_ok s"
  then have safe: "isSafeFilename fn" and rl: "readLine s = (True, sizeLine, s1)"
    and sz: "stoull sizeLine = Inr 0" and op: "ofstream_open fs fn = Some fs1" and tx: "tx_ok s"
    by simp_all
  let ?s' = "snd (sendLine s1 ''OK'')"
  note fr = readLine_frame [OF rl]
  have tx1: "tx_ok s1" using fr(4) tx by simp
  have "dispatch s fs (''PUT '' @ fn) = (Continue, ?s', fs1)"
    unfolding dispatch_PUT using safe rl sz op by (simp add: handle_PUT_def recv_file_0)
  moreover have "out ?s' = out s @ ''OK'' @ [NL]"
    using sendLine_ok(2) [OF tx1, of "''OK''"] fr(2) by simp
  moreover have "rx ?s' = rx s1" by simp
  moreover note ofstream_open_Some(1,4) [OF op]
  ultimately show "\<exists>s'. dispatch s fs (''PUT '' @ fn) = (Continue, s', fs1) \<and>
            out s' = out s @ ''OK'' @ [NL] \<and> rx s' = rx s1 \<and>
            fs_status fs1 fn = Some (File []) \<and> write_ok fs1 = write_ok fs"
    by (intro exI [of _ ?s']) simp
next
  assume b: "isSafeFilename fn \<and> fs_status gfs fn = Some (File []) \<and> fn \<notin> set (unreadable gfs) \<and>
    tx_ok t"
  then have safe: "isSafeFilename fn" and reg: "fs_status gfs fn = Some (File [])"
    and rd: "fn \<notin> set (unreadable gfs)" and tx: "tx_ok t"
    by simp_all
  from handle_GET_ok [OF safe reg rd tx] obtain t' where
    "handle_GET t gfs fn = (Continue, t', gfs)"
    "out t' = out t @ ''OK'' @ [NL] @ to_string (length ([]::string)) @ [NL] @ []" "rx t' = rx t"
    by blast
  then show "\<exists>t'. dispatch t gfs (''GET '' @ fn) = (Continue, t', gfs) \<and>
            out t' = out t @ ''OK'' @ [NL] @ ''0'' @ [NL] \<and> rx t' = rx t"
    unfolding dispatch_GET by (intro exI [of _ t']) (simp add: to_string_0)
qed

text \<open>\<open>PUT e.txt\<close> with size 0 into an empty directory, then \<open>GET e.txt\<close>.\<close>

theorem empty_file_boundary_witness:
  "isSafeFilename ''e.txt'' \<and>
   readLine \<lparr>rx = [Bytes (''0'' @ [NL] @ ''GET e.txt'' @ [NL])], tx = [], out = [], is_closed = False\<rparr>
     = (True, ''0'', \<lparr>rx = [Bytes (''GET e.txt'' @ [NL])], tx = [], out = [], is_closed = False\<rparr>) \<and>
   stoull ''0'' = Inr 0 \<and>
   ofstream_open \<lparr>entries = [], unreadable = [], unwritable = [], write_ok = []\<rparr> ''e.txt''
     = Some \<lparr>entries = [(''e.txt'', File [])], unreadable = [], unwritable = [], write_ok = []\<rparr> \<and>
   (\<exists>s'. dispatch \<lparr>rx = [Bytes (''0'' @ [NL] @ ''GET e.txt'' @ [NL])], tx = [], out = [], is_closed = False\<rparr>
            \<lparr>entries = [], unreadable = [], unwritable = [], write_ok = []\<rparr> (''PUT '' @ ''e.txt'')
          = (Continue, s', \<lparr>entries = [(''e.txt'', File [])], unreadable = [], unwritable = [], write_ok = []\<rparr>) \<and>
        out s' = ''OK'' @ [NL] \<and> rx s' = [Bytes (''GET e.txt'' @ [NL])]) \<and>
   fs_status \<lparr>entries = [(''e.txt'', File [])], unreadable = [], unwritable = [], write_ok = []\<rparr> ''e.txt''
     = Some (File []) \<and>
   (\<exists>t'. dispatch \<lparr>rx = [], tx = [], out = [], is_closed = False\<rparr>
            \<lparr>entries = [(''e.txt'', File [])], unreadable = [], unwritable = [], write_ok = []\<rparr> (''GET '' @ ''e.txt'')
          = (Continue, t', \<lparr>entries = [(''e.txt'', File [])], unreadable = [], unwritable = [], write_ok = []\<rparr>) \<and>
        out t' = ''OK'' @ [NL] @ ''0'' @ [NL])"
proof -
  let ?fs = "\<lparr>entries = [], unreadable = [], unwritable = [], write_ok = []\<rparr>"
  let ?fs1 = "\<lparr>entries = [(''e.txt'', File [])], unreadable = [], unwritable = [], write_ok = []\<rparr>"
  let ?s = "\<lparr>rx = [Bytes (''0'' @ [NL] @ ''GET e.txt'' @ [NL])], tx = [], out = [], is_closed = False\<rparr>"
  let ?s1 = "\<lparr>rx = [Bytes (''GET e.txt'' @ [NL])], tx = [], out = [], is_closed = False\<rparr>"
  let ?t = "\<lparr>rx = [], tx = [], out = [], is_closed = False\<rparr>"
  have safe: "isSafeFilename ''e.txt''" by code_simp
  have rl: "readLine ?s = (True, ''0'', ?s1)" by code_simp
  have sz: "stoull ''0'' = Inr 0"
    by (simp add: stoull_def isspace_def isdigit_def digit_val_def ULLONG_MAX_def)
  have op: "ofstream_open ?fs ''e.txt'' = Some ?fs1" by code_simp
  have tx: "tx_ok ?s" "tx_ok ?t" by code_simp+
  have reg: "fs_status ?fs1 ''e.txt'' = Some (File [])" by code_simp
  have rd: "''e.txt'' \<notin> set (unreadable ?fs1)" by simp
  note th = empty_file_boundary [of "''e.txt''" ?s "''0''" ?s1 ?fs ?fs1 ?fs1 ?t]
  from th safe rl sz op tx(1) obtain s' where
    "dispatch ?s ?fs (''PUT '' @ ''e.txt'') = (Continue, s', ?fs1)"
    "out s' = out ?s @ ''OK'' @ [NL]" "rx s' = rx ?s1"
    by blast
  then have put: "\<exists>s'. dispatch ?s ?fs (''PUT '' @ ''e.txt'') = (Continue, s', ?fs1) \<and>
        out s' = ''OK'' @ [NL] \<and> rx s' = [Bytes (''GET e.txt'' @ [NL])]"
    by (intro exI [of _ s']) simp
  from th safe reg rd tx(2) obtain t' where
    "dispatch ?t ?fs1 (''GET '' @ ''e.txt'') = (Continue, t', ?fs1)"
    "out t' = out ?t @ ''OK'' @ [NL] @ ''0'' @ [NL]"
    by blast
  then have get: "\<exists>t'. dispatch ?t ?fs1 (''GET '' @ ''e.txt'') = (Continue, t', ?fs1) \<and>
        out t' = ''OK'' @ [NL] @ ''0'' @ [NL]"
    by (intro exI [of _ t']) simp
  from safe rl sz op put reg get show ?thesis by blast
qed

text \<open>
  C4 as the specification words it, for every existing empty regular file, fails on two
  files. The empty file \<open>a..b\<close> exists in the directory, but its name does not pass
  the filename guard: the answer is \<open>ERR\<close>, \<open>Invalid filename\<close>. The empty file \<open>e\<close>
  exists but cannot be opened for reading: the answer is \<open>ERR\<close>,
  \<open>Failed to open file\<close>.
\<close>

theorem GET_empty_file_counterexample:
  "fs_status \<lparr>entries = [(''a..b'', File [])], unreadable = [], unwritable = [], write_ok = []\<rparr> ''a..b''
     = Some (File []) \<and>
   handle_client \<lparr>rx = [Bytes (''GET a..b'' @ [NL])], tx = [], out = [], is_closed = False\<rparr>
       \<lparr>entries = [(''a..b'', File [])], unreadable = [], unwritable = [], write_ok = []\<rparr>
     = (\<lparr>rx = [], tx = [], out = ''ERR'' @ [NL] @ ''Invalid filename'' @ [NL], is_closed = True\<rparr>,
        \<lparr>entries = [(''a..b'', File [])], unreadable = [], unwritable = [], write_ok = []\<rparr>) \<and>
   fs_status \<lparr>entries = [(''e'', File [])], unreadable = [''e''], unwritable = [], write_ok = []\<rparr> ''e''
     = Some (File []) \<and>
   handle_client \<lparr>rx = [Bytes (''GET e'' @ [NL])], tx = [], out = [], is_closed = False\<rparr>
       \<lparr>entries = [(''e'', File [])], unreadable = [''e''], unwritable = [], write_ok = []\<rparr>
     = (\<lparr>rx = [], tx = [], out = ''ERR'' @ [NL] @ ''Failed to open file'' @ [NL], is_closed = True\<rparr>,
        \<lparr>entries = [(''e'', File [])], unreadable = [''e''], unwritable = [], write_ok = []\<rparr>)"
  by code_simp



end
